theory Spec2Isabelle
  imports Complex_Main "HOL-Library.Sublist"
begin

text \<open>
  The job lifecycle of \<open>server.js\<close>: the route that creates a job and starts
  \<open>runTrainingSimulation\<close>, the interval callback that produces one metric sample per
  tick and persists progress and metrics, the route that cancels a job, and the map
  \<open>jobTimers\<close>. The process is a state (the table \<open>jobs\<close>, the live interval timers
  with the variables their callbacks close over, and \<open>jobTimers\<close>); a request or a
  firing timer is a function on states, run to its end before the next one starts, as
  the single-threaded runtime does. What the code reads from outside (the clock,
  \<open>Math.random()\<close>, a store write that throws) is an argument of that function.
\<close>

section \<open>JavaScript numbers\<close>

text \<open>
  The server computes with JavaScript numbers (IEEE 754 doubles). A number is a finite
  value, \<open>NaN\<close> or one of the two infinities. Finite values are carried as reals; an
  operator rounds its exact result to the nearest double, ties to even, as the hardware
  does. The sign of zero is not modelled: no expression of the simulator observes it.
\<close>

datatype jsnum = Fin real | NaN | PosInf | NegInf

text \<open>Round to the nearest integer, ties to the even one.\<close>

definition rne :: "real \<Rightarrow> int" where
  "rne x =
     (let f = \<lfloor>x\<rfloor>; r = x - of_int f
      in if r < 1 / 2 then f else if 1 / 2 < r then f + 1 else if even f then f else f + 1)"

text \<open>
  The binary exponent of a positive real, clipped to the range of normal doubles:
  \<open>halvings\<close> counts how often \<open>x \<ge> 2\<close> can be halved, \<open>doublings\<close> how often
  \<open>x < 1\<close> must be doubled. The bounds 1024 and 1022 are the largest and smallest
  exponents of the format (below \<open>2^-1022\<close> doubles are subnormal and share one spacing).
\<close>

primrec halvings :: "nat \<Rightarrow> real \<Rightarrow> nat" where
  "halvings 0 x = 0"
| "halvings (Suc n) x = (if 2 \<le> x then Suc (halvings n (x / 2)) else 0)"

primrec doublings :: "nat \<Rightarrow> real \<Rightarrow> nat" where
  "doublings 0 x = 0"
| "doublings (Suc n) x = (if x < 1 then Suc (doublings n (2 * x)) else 0)"

definition binexp :: "real \<Rightarrow> int" where
  "binexp x = (if 1 \<le> x then int (halvings 1024 x) else - int (doublings 1022 x))"

definition pow2 :: "int \<Rightarrow> real" where
  "pow2 k = (if 0 \<le> k then 2 ^ nat k else 1 / 2 ^ nat (- k))"

text \<open>
  Rounding a positive real to a double: a double has 53 significant bits, so the spacing
  of doubles around \<open>x\<close> is \<open>2^(binexp x - 52)\<close>; a result of \<open>2^1024\<close> or more overflows.
\<close>

definition fl_pos :: "real \<Rightarrow> jsnum" where
  "fl_pos x =
     (let u = pow2 (binexp x - 52); r = of_int (rne (x / u)) * u
      in if 2 ^ 1024 \<le> r then PosInf else Fin r)"

fun js_neg :: "jsnum \<Rightarrow> jsnum" where
  "js_neg (Fin x) = Fin (- x)"
| "js_neg NaN = NaN"
| "js_neg PosInf = NegInf"
| "js_neg NegInf = PosInf"

definition fl :: "real \<Rightarrow> jsnum" where
  "fl x = (if x = 0 then Fin 0 else if 0 < x then fl_pos x else js_neg (fl_pos (- x)))"

text \<open>The operators \<open>+\<close> and \<open>-\<close>.\<close>

fun js_add :: "jsnum \<Rightarrow> jsnum \<Rightarrow> jsnum" where
  "js_add NaN b = NaN"
| "js_add a NaN = NaN"
| "js_add (Fin a) (Fin b) = fl (a + b)"
| "js_add (Fin a) PosInf = PosInf"
| "js_add (Fin a) NegInf = NegInf"
| "js_add PosInf (Fin b) = PosInf"
| "js_add NegInf (Fin b) = NegInf"
| "js_add PosInf PosInf = PosInf"
| "js_add PosInf NegInf = NaN"
| "js_add NegInf PosInf = NaN"
| "js_add NegInf NegInf = NegInf"

definition js_sub :: "jsnum \<Rightarrow> jsnum \<Rightarrow> jsnum" where
  "js_sub a b = js_add a (js_neg b)"

text \<open>The operator \<open>*\<close>.\<close>

fun js_mul :: "jsnum \<Rightarrow> jsnum \<Rightarrow> jsnum" where
  "js_mul NaN b = NaN"
| "js_mul a NaN = NaN"
| "js_mul (Fin a) (Fin b) = fl (a * b)"
| "js_mul (Fin a) PosInf = (if a = 0 then NaN else if 0 < a then PosInf else NegInf)"
| "js_mul (Fin a) NegInf = (if a = 0 then NaN else if 0 < a then NegInf else PosInf)"
| "js_mul PosInf (Fin b) = (if b = 0 then NaN else if 0 < b then PosInf else NegInf)"
| "js_mul NegInf (Fin b) = (if b = 0 then NaN else if 0 < b then NegInf else PosInf)"
| "js_mul PosInf PosInf = PosInf"
| "js_mul PosInf NegInf = NegInf"
| "js_mul NegInf PosInf = NegInf"
| "js_mul NegInf NegInf = PosInf"

text \<open>The operator \<open>/\<close>.\<close>

fun js_div :: "jsnum \<Rightarrow> jsnum \<Rightarrow> jsnum" where
  "js_div NaN b = NaN"
| "js_div a NaN = NaN"
| "js_div (Fin a) (Fin b) =
     (if b = 0 then (if a = 0 then NaN else if 0 < a then PosInf else NegInf)
      else fl (a / b))"
| "js_div (Fin a) PosInf = Fin 0"
| "js_div (Fin a) NegInf = Fin 0"
| "js_div PosInf (Fin b) = (if 0 \<le> b then PosInf else NegInf)"
| "js_div NegInf (Fin b) = (if 0 \<le> b then NegInf else PosInf)"
| "js_div PosInf PosInf = NaN"
| "js_div PosInf NegInf = NaN"
| "js_div NegInf PosInf = NaN"
| "js_div NegInf NegInf = NaN"

text \<open>The comparison \<open>a <= b\<close>: false as soon as one side is \<open>NaN\<close>.\<close>

fun js_le :: "jsnum \<Rightarrow> jsnum \<Rightarrow> bool" where
  "js_le NaN b = False"
| "js_le a NaN = False"
| "js_le (Fin a) (Fin b) = (a \<le> b)"
| "js_le NegInf b = True"
| "js_le a PosInf = True"
| "js_le PosInf b = False"
| "js_le a NegInf = False"

definition js_ge :: "jsnum \<Rightarrow> jsnum \<Rightarrow> bool" where
  "js_ge a b = js_le b a"

text \<open>\<open>Math.max\<close> and \<open>Math.min\<close> of two arguments: \<open>NaN\<close> if either is.\<close>

definition js_max :: "jsnum \<Rightarrow> jsnum \<Rightarrow> jsnum" where
  "js_max a b = (if a = NaN \<or> b = NaN then NaN else if js_le a b then b else a)"

definition js_min :: "jsnum \<Rightarrow> jsnum \<Rightarrow> jsnum" where
  "js_min a b = (if a = NaN \<or> b = NaN then NaN else if js_le a b then a else b)"

text \<open>\<open>Math.round\<close>: the nearest integer, halves upwards; exact on every double.\<close>

fun js_round :: "jsnum \<Rightarrow> jsnum" where
  "js_round (Fin x) = Fin (of_int \<lfloor>x + 1 / 2\<rfloor>)"
| "js_round v = v"

text \<open>
  \<open>Math.exp\<close>. The language leaves its precision to the implementation; it is taken
  to return the double nearest to the exponential.
\<close>

fun js_exp :: "jsnum \<Rightarrow> jsnum" where
  "js_exp (Fin x) = fl (exp x)"
| "js_exp NaN = NaN"
| "js_exp PosInf = PosInf"
| "js_exp NegInf = Fin 0"

text \<open>
  \<open>x.toFixed(4)\<close> writes the decimal with four digits after the point that is nearest
  to the exact value of the double \<open>x\<close>, a tie away from zero (\<open>toFixed4\<close> is the
  value of that decimal); from \<open>10^21\<close> on, and for a value that is not finite, it
  writes the number as \<open>String\<close> does. \<open>Number\<close> reads the text back as the nearest
  double.
\<close>

definition toFixed4 :: "real \<Rightarrow> real" where
  "toFixed4 x =
     (if x < 0 then - (of_int \<lfloor>- x * 10000 + 1 / 2\<rfloor> / 10000)
      else of_int \<lfloor>x * 10000 + 1 / 2\<rfloor> / 10000)"

fun js_toFixed4 :: "jsnum \<Rightarrow> jsnum" where
  "js_toFixed4 (Fin x) = (if 10 ^ 21 \<le> \<bar>x\<bar> then Fin x else fl (toFixed4 x))"
| "js_toFixed4 v = v"


section \<open>The job store and the simulator\<close>

subsection \<open>Errors, configs, metric samples\<close>

text \<open>
  A thrown JavaScript error with its \<open>name\<close> and \<open>message\<close>. The fallback of the
  creation route stores \<open>String(err?.message || err)\<close>: the message, or for an empty
  message the error's string form, which is then its name.
\<close>

datatype js_error = Error (name: string) (message: string)

definition errString :: "js_error \<Rightarrow> string" where
  "errString e = (if message e \<noteq> [] then message e else name e)"

text \<open>
  The simulator reads two fields of the request's \<open>config\<close>, each through
  \<open>Number(config?.f ?? d)\<close>. A field is carried as \<open>None\<close> when it is absent or
  \<open>null\<close> (the cases \<open>??\<close> replaces by the default), and otherwise as the number that
  \<open>Number\<close> makes of its value: \<open>Some (Fin 10)\<close> for \<open>10\<close> or \<open>"10"\<close>, \<open>Some NaN\<close> for
  a value that is no number, such as \<open>"abc"\<close> or an object, \<open>Some PosInf\<close> for the JSON
  number \<open>1e999\<close>.
\<close>

record config =
  epochs :: "jsnum option"
  stepsPerEpoch :: "jsnum option"

definition totalSteps_of :: "config \<Rightarrow> jsnum" where
  "totalSteps_of cfg =
     (let e = (case epochs cfg of None \<Rightarrow> Fin 5 | Some v \<Rightarrow> v);
          spe = (case stepsPerEpoch cfg of None \<Rightarrow> Fin 20 | Some v \<Rightarrow> v)
      in js_max (js_mul e spe) (Fin 20))"

text \<open>
  A metric sample is the object \<open>{ step, loss, accuracy, timeMs }\<close>: its properties
  in insertion order. In the store the buffer is JSON text, where a number that is not
  finite is written as \<open>null\<close>.
\<close>

type_synonym js_object = "(string \<times> jsnum) list"

datatype json_value = JNull | JNum real

type_synonym json_object = "(string \<times> json_value) list"

fun json_of_num :: "jsnum \<Rightarrow> json_value" where
  "json_of_num (Fin x) = JNum x"
| "json_of_num v = JNull"

definition toJson :: "js_object list \<Rightarrow> json_object list" where
  "toJson ms = map (map (\<lambda>(k, v). (k, json_of_num v))) ms"

text \<open>
  \<open>progress\<close>, \<open>loss\<close> and \<open>accuracy\<close> of a tick, for the incremented step count, the
  total and the two draws of \<open>Math.random()\<close>: the expressions of the callback,
  operator by operator. The literal \<open>0.05\<close> is the double nearest to one twentieth.
\<close>

definition progress_of :: "nat \<Rightarrow> jsnum \<Rightarrow> jsnum" where
  "progress_of st n =
     js_min (js_round (js_mul (js_div (Fin (real st)) n) (Fin 100))) (Fin 100)"

definition loss_of :: "jsnum \<Rightarrow> real \<Rightarrow> jsnum" where
  "loss_of t r =
     js_toFixed4
       (js_add (js_mul (Fin (3 / 2)) (js_exp (js_mul (Fin (- 3)) t)))
               (js_mul (fl (1 / 20)) (Fin r)))"

definition accuracy_of :: "jsnum \<Rightarrow> real \<Rightarrow> jsnum" where
  "accuracy_of t r =
     js_toFixed4
       (js_add (js_add (Fin (1 / 2)) (js_mul (Fin (1 / 2)) t))
               (js_mul (fl (1 / 20)) (js_sub (Fin r) (Fin (1 / 2)))))"

subsection \<open>State\<close>

datatype status = Queued | Running | Completed | Failed | Canceled

text \<open>
  A row of the table \<open>jobs\<close>. The columns \<open>created_at\<close> and \<open>updated_at\<close> are left out.
  The column \<open>metrics_json\<close> holds the JSON array that \<open>fromJson\<close> reads back.
\<close>

record job_row =
  project_id :: nat
  model_id :: "nat option"
  job_type :: string
  status :: status
  progress :: jsnum
  metrics_json :: "json_object list"
  error :: "string option"

text \<open>
  The value of \<open>jobTimers\<close> for a job, and the variables that the interval callback of
  \<open>runTrainingSimulation\<close> closes over. The counter \<open>step\<close> is a natural number:
  doubles count exactly far beyond any number of ticks that can be run.
\<close>

record handle =
  intervalId :: nat
  startTime :: int

record sim = handle +
  jobId :: nat
  totalSteps :: jsnum
  step :: nat
  metrics :: "js_object list"

text \<open>
  The process: the database (the ids of the existing projects and models, the table
  \<open>jobs\<close> and its autoincrement counter), the runtime's table of live interval
  timers, the map \<open>jobTimers\<close>, and the uncaught error that has terminated the
  process, if any.
\<close>

record state =
  projects :: "nat set"
  models :: "nat set"
  jobs :: "nat \<rightharpoonup> job_row"
  lastJobId :: nat
  intervals :: "nat \<rightharpoonup> sim"
  lastIntervalId :: nat
  jobTimers :: "nat \<rightharpoonup> handle"
  crashed :: "js_error option"

text \<open>\<open>UPDATE jobs SET ... WHERE id = ?\<close>: no row with that id, no change.\<close>

definition sql_update :: "nat \<Rightarrow> (job_row \<Rightarrow> job_row) \<Rightarrow> (nat \<rightharpoonup> job_row) \<Rightarrow> (nat \<rightharpoonup> job_row)" where
  "sql_update jid f tbl = (case tbl jid of None \<Rightarrow> tbl | Some r \<Rightarrow> tbl(jid \<mapsto> f r))"

text \<open>
  The constraints of the table that the job routes can violate. The column
  \<open>progress\<close> is \<open>INTEGER NOT NULL\<close> and a \<open>NaN\<close> is bound as \<open>NULL\<close>, so a
  statement that sets the progress of an existing row to \<open>NaN\<close> throws; the column
  \<open>model_id\<close> refers to \<open>models(id)\<close> with foreign keys enforced, so an insert with
  the id of no model throws.
\<close>

definition not_null_error :: js_error where
  "not_null_error = Error ''SqliteError'' ''NOT NULL constraint failed: jobs.progress''"

definition foreign_key_error :: js_error where
  "foreign_key_error = Error ''SqliteError'' ''FOREIGN KEY constraint failed''"

text \<open>A result of \<open>Math.random()\<close>: a number from 0 up to but not including 1.\<close>

typedef draw = "{x::real. 0 \<le> x \<and> x < 1}"
  morphisms draw_value Draw
  by (rule exI [of _ 0]) simp

text \<open>
  What the environment decides when a job is started and at a tick: the clock, the two
  random draws, and whether a write of the simulator to the store throws for a reason
  of the environment's (and what).
\<close>

record start_env =
  start_now :: int
  setRunning_throws :: "js_error option"
  fallback_throws :: "js_error option"

record tick_env =
  now :: int
  rand1 :: draw
  rand2 :: draw
  flush_throws :: "js_error option"
  final_throws :: "js_error option"

subsection \<open>The simulator\<close>

text \<open>
  \<open>runTrainingSimulation\<close>, up to its return: the write of \<open>running\<close>, the total, the
  interval timer and the entry of \<open>jobTimers\<close>. \<open>Inl\<close> is the rejected promise.
\<close>

definition runTrainingSimulation :: "start_env \<Rightarrow> nat \<Rightarrow> config \<Rightarrow> state \<Rightarrow> js_error + state" where
  "runTrainingSimulation env jid cfg s =
     (case setRunning_throws env of
        Some e \<Rightarrow> Inl e
      | None \<Rightarrow>
          let s1 = s\<lparr>jobs := sql_update jid (\<lambda>r. r\<lparr>status := Running\<rparr>) (jobs s)\<rparr>;
              iid = lastIntervalId s1 + 1;
              c = \<lparr>intervalId = iid, startTime = start_now env, jobId = jid,
                   totalSteps = totalSteps_of cfg, step = 0, metrics = []\<rparr>
          in Inr (s1\<lparr>intervals := (intervals s1)(iid \<mapsto> c),
                     lastIntervalId := iid,
                     jobTimers := (jobTimers s1)(jid \<mapsto> \<lparr>intervalId = iid, startTime = start_now env\<rparr>)\<rparr>))"

text \<open>
  What \<open>UPDATE jobs SET progress = p, ... WHERE id = jid\<close> throws: the
  environment's fault if there is one, and otherwise the constraint on \<open>progress\<close>.
\<close>

definition write_throws :: "js_error option \<Rightarrow> jsnum \<Rightarrow> nat \<Rightarrow> state \<Rightarrow> js_error option" where
  "write_throws fault p jid s =
     (case fault of
        Some e \<Rightarrow> Some e
      | None \<Rightarrow> if p = NaN \<and> jobs s jid \<noteq> None then Some not_null_error else None)"

text \<open>The object pushed at a tick.\<close>

definition sample :: "tick_env \<Rightarrow> sim \<Rightarrow> nat \<Rightarrow> js_object" where
  "sample env c st =
     (let t = js_div (Fin (real st)) (totalSteps c)
      in [(''step'', Fin (real st)),
          (''loss'', loss_of t (draw_value (rand1 env))),
          (''accuracy'', accuracy_of t (draw_value (rand2 env))),
          (''timeMs'', Fin (of_int (now env - startTime c)))])"

text \<open>
  One firing of the interval callback with closure \<open>c\<close>. A write that throws leaves the
  callback as an uncaught exception, which terminates the process; what was done before
  the throw stays done.
\<close>

definition tick :: "tick_env \<Rightarrow> sim \<Rightarrow> state \<Rightarrow> state" where
  "tick env c s =
     (let st = step c + 1;
          p = progress_of st (totalSteps c);
          ms = metrics c @ [sample env c st];
          s1 = s\<lparr>intervals := (intervals s)(intervalId c \<mapsto> c\<lparr>step := st, metrics := ms\<rparr>)\<rparr>;
          flush = (st mod 2 = 0 \<or> p = Fin 100);
          err = write_throws (flush_throws env) p (jobId c) s
      in if flush \<and> err \<noteq> None then s1\<lparr>crashed := err\<rparr>
         else
           let s2 = (if flush
                     then s1\<lparr>jobs := sql_update (jobId c)
                                 (\<lambda>r. r\<lparr>progress := p, metrics_json := toJson ms\<rparr>) (jobs s1)\<rparr>
                     else s1)
           in if js_ge (Fin (real st)) (totalSteps c)
              then
                let s3 = s2\<lparr>intervals := (intervals s2)(intervalId c := None),
                            jobTimers := (jobTimers s2)(jobId c := None)\<rparr>
                in (case final_throws env of
                      Some e \<Rightarrow> s3\<lparr>crashed := Some e\<rparr>
                    | None \<Rightarrow>
                        s3\<lparr>jobs := sql_update (jobId c)
                              (\<lambda>r. r\<lparr>status := Completed, progress := Fin 100,
                                      metrics_json := toJson ms\<rparr>) (jobs s3)\<rparr>)
              else s2)"

subsection \<open>The routes\<close>

text \<open>
  The answer of a route: the status code and the body. An exception thrown by a route
  handler itself is caught by the framework, which answers 500.
\<close>

datatype response =
    Status404 string
  | Status500 js_error
  | Status201 "job_row option" "json_object list"
  | Status200 job_row "json_object list"

text \<open>
  \<open>POST /api/projects/:id/jobs\<close>. The row is inserted as \<open>queued\<close>; if the request
  names a model that does not exist, the insert throws and nothing else happens.
  Otherwise the simulator runs up to its return, the row is read back for the response,
  and then the rejection handler runs if the simulator threw: it writes \<open>failed\<close> and
  the error. If that write throws as well, the rejection is unhandled and terminates the
  process.
\<close>

definition createJob :: "start_env \<Rightarrow> nat \<Rightarrow> nat option \<Rightarrow> string \<Rightarrow> config \<Rightarrow> state \<Rightarrow> response \<times> state" where
  "createJob env pid mid ty cfg s =
     (if pid \<notin> projects s then (Status404 ''Project not found'', s)
      else if (case mid of None \<Rightarrow> False | Some m \<Rightarrow> m \<notin> models s)
      then (Status500 foreign_key_error, s)
      else
        let jid = lastJobId s + 1;
            s0 = s\<lparr>jobs := (jobs s)(jid \<mapsto>
                        \<lparr>project_id = pid, model_id = mid, job_type = ty, status = Queued,
                         progress = Fin 0, metrics_json = [], error = None\<rparr>),
                   lastJobId := jid\<rparr>;
            res = runTrainingSimulation env jid cfg s0;
            s1 = (case res of Inl e \<Rightarrow> s0 | Inr s' \<Rightarrow> s');
            resp = Status201 (jobs s1 jid) [];
            s2 = (case res of
                    Inr s' \<Rightarrow> s1
                  | Inl e \<Rightarrow>
                      (case fallback_throws env of
                         Some e' \<Rightarrow> s1\<lparr>crashed := Some e'\<rparr>
                       | None \<Rightarrow>
                           s1\<lparr>jobs := sql_update jid
                                 (\<lambda>r. r\<lparr>status := Failed, error := Some (errString e)\<rparr>) (jobs s1)\<rparr>))
        in (resp, s2))"



text \<open>
  \<open>POST /api/jobs/:jobId/cancel\<close>: the row is read, the job's timer (if \<open>jobTimers\<close>
  has one) is cleared and deregistered, status \<open>canceled\<close> is written together with the
  progress that was read, and the row is read back for the response.
\<close>

definition cancelJob :: "nat \<Rightarrow> state \<Rightarrow> response \<times> state" where
  "cancelJob jid s =
     (case jobs s jid of
        None \<Rightarrow> (Status404 ''Job not found'', s)
      | Some job \<Rightarrow>
          let s1 = (case jobTimers s jid of
                      None \<Rightarrow> s
                    | Some timer \<Rightarrow>
                        s\<lparr>intervals := (intervals s)(intervalId timer := None),
                          jobTimers := (jobTimers s)(jid := None)\<rparr>);
              s2 = s1\<lparr>jobs := sql_update jid
                          (\<lambda>r. r\<lparr>status := Canceled, progress := progress job\<rparr>) (jobs s1)\<rparr>
          in (case jobs s2 jid of
                None \<Rightarrow> (Status404 ''Job not found'', s2)
              | Some updated \<Rightarrow> (Status200 updated (metrics_json updated), s2)))"

subsection \<open>Runs\<close>

text \<open>
  What can happen to the process: a request to one of the job routes, the firing of a
  live interval timer, or the creation of a project or of a model of a project, whose
  id the database gives (the routes for datasets touch nothing that the job routes
  read). Nothing happens in a terminated process.
\<close>

datatype event =
    Create start_env nat "nat option" string config
  | Get nat
  | List nat
  | Cancel nat
  | Tick nat tick_env
  | NewProject nat
  | NewModel nat nat

fun exec :: "event \<Rightarrow> state \<Rightarrow> state" where
  "exec ev s =
     (if crashed s \<noteq> None then s
      else (case ev of
              Create env pid mid ty cfg \<Rightarrow> snd (createJob env pid mid ty cfg s)
            | Get jid \<Rightarrow> s
            | List pid \<Rightarrow> s
            | Cancel jid \<Rightarrow> snd (cancelJob jid s)
            | Tick iid env \<Rightarrow>
                (case intervals s iid of None \<Rightarrow> s | Some c \<Rightarrow> tick env c s)
            | NewProject pid \<Rightarrow> s\<lparr>projects := insert pid (projects s)\<rparr>
            | NewModel pid mid \<Rightarrow>
                (if pid \<in> projects s then s\<lparr>models := insert mid (models s)\<rparr> else s)))"

definition run :: "event list \<Rightarrow> state \<Rightarrow> state" where
  "run evs s = foldl (\<lambda>s ev. exec ev s) s evs"

text \<open>
  A freshly started process on a database with the given projects, no models and no
  jobs.
\<close>

definition init :: "nat set \<Rightarrow> state" where
  "init ps = \<lparr>projects = ps, models = {}, jobs = Map.empty, lastJobId = 0, intervals = Map.empty,
              lastIntervalId = 0, jobTimers = Map.empty, crashed = None\<rparr>"


subsection \<open>The specification's reading of progress\<close>

text \<open>
  The specification's data model words progress as the same scaled quotient "rounded
  down to an integer, capped at 100". This is that wording, to be compared with
  \<open>progress_of\<close>, which is what the callback computes.
\<close>

fun js_floor :: "jsnum \<Rightarrow> jsnum" where
  "js_floor (Fin x) = Fin (of_int \<lfloor>x\<rfloor>)"
| "js_floor v = v"

definition spec_progress :: "nat \<Rightarrow> jsnum \<Rightarrow> jsnum" where
  "spec_progress st n =
     js_min (js_floor (js_mul (js_div (Fin (real st)) n) (Fin 100))) (Fin 100)"

section \<open>Runs of one job\<close>

text \<open>
  Notions used to state and prove the claims. \<open>finished n k\<close> is the callback's test
  \<open>step >= totalSteps\<close> at step \<open>k\<close>; an environment is \<open>quiet\<close> when no write
  throws; \<open>pushed env c\<close> is the closure after the callback has counted and pushed one
  sample, \<open>advance es c\<close> after one sample for each environment of \<open>es\<close>;
  \<open>fresh_sim\<close> is the closure that \<open>runTrainingSimulation\<close> creates; \<open>live c s\<close>
  says that \<open>c\<close> is a live timer of a running process, registered for its job, and
  that the job is stored as running.
\<close>

definition finished :: "jsnum \<Rightarrow> nat \<Rightarrow> bool" where
  "finished n k = js_ge (Fin (real k)) n"

definition quiet :: "tick_env \<Rightarrow> bool" where
  "quiet env = (flush_throws env = None \<and> final_throws env = None)"

definition pushed :: "tick_env \<Rightarrow> sim \<Rightarrow> sim" where
  "pushed env c = c\<lparr>step := step c + 1, metrics := metrics c @ [sample env c (step c + 1)]\<rparr>"

fun advance :: "tick_env list \<Rightarrow> sim \<Rightarrow> sim" where
  "advance [] c = c"
| "advance (e # es) c = advance es (pushed e c)"

definition fresh_sim :: "start_env \<Rightarrow> nat \<Rightarrow> nat \<Rightarrow> config \<Rightarrow> sim" where
  "fresh_sim env iid jid cfg =
     \<lparr>intervalId = iid, startTime = start_now env, jobId = jid,
      totalSteps = totalSteps_of cfg, step = 0, metrics = []\<rparr>"

definition live :: "sim \<Rightarrow> state \<Rightarrow> bool" where
  "live c s =
     (crashed s = None \<and> intervals s (intervalId c) = Some c
      \<and> jobTimers s (jobId c) = Some \<lparr>intervalId = intervalId c, startTime = startTime c\<rparr>
      \<and> map_option status (jobs s (jobId c)) = Some Running)"

text \<open>Concrete environments for the examples: a start and a tick without faults.\<close>

definition env0 :: start_env where
  "env0 = \<lparr>start_now = 0, setRunning_throws = None, fallback_throws = None\<rparr>"

definition tick0 :: tick_env where
  "tick0 = \<lparr>now = 500, rand1 = Draw 0, rand2 = Draw 0, flush_throws = None,
            final_throws = None\<rparr>"

section \<open>The invariant of reachable states\<close>

text \<open>
  A closure is \<open>grown\<close> when it is what some number of ticks made of a closure with
  step 0 and an empty buffer; a stored buffer is fine when it is the JSON text of the
  buffer of a grown closure. In every reachable state (\<open>inv\<close>) each live timer is
  filed under its own id, is the registered timer of its job, is grown, and its job is
  stored as running with a buffer that is a prefix of the timer's; each stored job has
  an id that was given out and a buffer that is fine; each entry of \<open>jobTimers\<close> names
  a live timer of its job.
\<close>

definition grown :: "sim \<Rightarrow> bool" where
  "grown c = (\<exists>c0 es. step c0 = 0 \<and> metrics c0 = [] \<and> c = advance es c0)"

definition stored_ok :: "json_object list \<Rightarrow> bool" where
  "stored_ok js = (\<exists>c. grown c \<and> js = toJson (metrics c))"

definition sim_ok :: "state \<Rightarrow> nat \<Rightarrow> sim \<Rightarrow> bool" where
  "sim_ok s i c =
     (intervalId c = i \<and> i \<le> lastIntervalId s
      \<and> jobTimers s (jobId c) = Some \<lparr>intervalId = i, startTime = startTime c\<rparr>
      \<and> grown c
      \<and> (\<exists>r. jobs s (jobId c) = Some r \<and> status r = Running
              \<and> prefix (metrics_json r) (toJson (metrics c))))"

definition inv :: "state \<Rightarrow> bool" where
  "inv s =
     ((\<forall>i c. intervals s i = Some c \<longrightarrow> sim_ok s i c)
      \<and> (\<forall>j r. jobs s j = Some r \<longrightarrow> j \<le> lastJobId s \<and> stored_ok (metrics_json r))
      \<and> (\<forall>j h. jobTimers s j = Some h \<longrightarrow>
             (\<exists>c. intervals s (intervalId h) = Some c \<and> jobId c = j)))"

text \<open>
  The values that reachable states hold (\<open>vals\<close>). The total of a timer is \<open>NaN\<close>
  or at least 20, as \<open>Math.max(..., 20)\<close> leaves it; a live timer has not reached its
  total. A stored row has an integer from 0 to 100 as its progress, and each of its
  samples has the four fields with finite numbers.
\<close>

definition total_ok :: "jsnum \<Rightarrow> bool" where
  "total_ok n = (n = NaN \<or> js_le (Fin 20) n)"

definition stored_sample :: "json_object \<Rightarrow> bool" where
  "stored_sample m =
     (\<exists>(k::nat) l a (t::int). 1 \<le> k
        \<and> m = [(''step'', JNum (real k)), (''loss'', JNum l), (''accuracy'', JNum a),
               (''timeMs'', JNum (of_int t))])"

definition row_ok :: "job_row \<Rightarrow> bool" where
  "row_ok r = ((\<exists>k::nat. k \<le> 100 \<and> progress r = Fin (real k))
               \<and> (\<forall>m\<in>set (metrics_json r). stored_sample m))"

definition vals :: "state \<Rightarrow> bool" where
  "vals s =
     ((\<forall>i c. intervals s i = Some c \<longrightarrow>
          total_ok (totalSteps c) \<and> (\<forall>k<step c. \<not> finished (totalSteps c) k)
          \<and> (crashed s = None \<longrightarrow> \<not> finished (totalSteps c) (step c)))
      \<and> (\<forall>j r. jobs s j = Some r \<longrightarrow> row_ok r))"

section \<open>Example runs\<close>

text \<open>
  A fresh process with project 1 on which a job with the default config is started
  (\<open>started\<close>, with closure \<open>sim0\<close>), then ticked once, twice and a hundred times
  without faults; a config whose \<open>epochs\<close> is not a number; a job with a total of 30
  steps after its first tick; and a job whose start fails because the write of
  \<open>running\<close> throws.
\<close>

definition cfg0 :: config where
  "cfg0 = \<lparr>epochs = None, stepsPerEpoch = None\<rparr>"

definition sim0 :: sim where
  "sim0 = fresh_sim env0 1 1 cfg0"

definition started :: state where
  "started = exec (Create env0 1 None ''train'' cfg0) (init {1})"

definition one_tick :: state where
  "one_tick = run [Tick 1 tick0] started"

definition two_ticks :: state where
  "two_ticks = run [Tick 1 tick0, Tick 1 tick0] started"

definition completed :: state where
  "completed = run (map (Tick 1) (replicate 100 tick0)) started"

definition cfg_nan :: config where
  "cfg_nan = \<lparr>epochs = Some NaN, stepsPerEpoch = None\<rparr>"

definition cfg30 :: config where
  "cfg30 = \<lparr>epochs = Some (Fin 3), stepsPerEpoch = Some (Fin 10)\<rparr>"

definition sim30 :: sim where
  "sim30 = fresh_sim env0 1 1 cfg30"

definition started30 :: state where
  "started30 = exec (Create env0 1 None ''train'' cfg30) (init {1})"

definition one_tick30 :: state where
  "one_tick30 = run [Tick 1 tick0] started30"

definition locked :: js_error where
  "locked = Error ''SqliteError'' ''database is locked''"

definition env_locked :: start_env where
  "env_locked = env0\<lparr>setRunning_throws := Some locked\<rparr>"

definition failed_start :: state where
  "failed_start = exec (Create env_locked 1 None ''train'' cfg0) (init {1})"

section \<open>Basic facts\<close>

subsection \<open>Evaluating the arithmetic\<close>

lemma halvings_numeral [simp]:
  "halvings (numeral k) x = (if 2 \<le> x then Suc (halvings (pred_numeral k) (x / 2)) else 0)"
  by (simp add: numeral_eq_Suc)

lemma doublings_numeral [simp]:
  "doublings (numeral k) x = (if x < 1 then Suc (doublings (pred_numeral k) (2 * x)) else 0)"
  by (simp add: numeral_eq_Suc)

lemmas fl_eval = fl_def fl_pos_def binexp_def pow2_def rne_def Let_def

lemma pow2_pos [simp]: "0 < pow2 k"
  by (simp add: pow2_def)

lemma pow2_nonneg [simp]: "0 \<le> pow2 k"
  by (simp add: pow2_def)

lemma rne_nonneg: "0 \<le> x \<Longrightarrow> 0 \<le> rne x"
  by (auto simp: rne_def Let_def)

lemma fl_pos_cases: "0 < x \<Longrightarrow> fl_pos x = PosInf \<or> (\<exists>r. 0 \<le> r \<and> fl_pos x = Fin r)"
proof -
  assume "0 < x"
  then have "0 \<le> x / pow2 (binexp x - 52)" by (simp add: less_imp_le)
  then have "0 \<le> of_int (rne (x / pow2 (binexp x - 52))) * pow2 (binexp x - 52)"
    by (intro mult_nonneg_nonneg) (simp_all add: rne_nonneg)
  then show ?thesis by (auto simp: fl_pos_def Let_def)
qed

lemma fl_cases: "0 \<le> x \<Longrightarrow> fl x = PosInf \<or> (\<exists>r. 0 \<le> r \<and> fl x = Fin r)"
  using fl_pos_cases [of x] by (auto simp: fl_def)

lemma scaled_cases:
  assumes "0 < n"
  shows "js_mul (js_div (Fin (real st)) (Fin n)) (Fin 100) = PosInf
         \<or> (\<exists>x. 0 \<le> x \<and> js_mul (js_div (Fin (real st)) (Fin n)) (Fin 100) = Fin x)"
proof -
  have "0 \<le> real st / n" using assms by simp
  then consider (inf) "fl (real st / n) = PosInf"
    | (fin) r where "0 \<le> r" "fl (real st / n) = Fin r"
    using fl_cases by blast
  then show ?thesis
  proof cases
    case inf
    then show ?thesis using assms by simp
  next
    case fin
    have "0 \<le> r * 100" using fin by simp
    then show ?thesis using fl_cases [of "r * 100"] assms fin by auto
  qed
qed

lemma fl_not_NaN [simp]: "fl x \<noteq> NaN"
proof -
  have "fl_pos y \<noteq> NaN" for y by (simp add: fl_pos_def Let_def)
  moreover have "js_neg v \<noteq> NaN" if "v \<noteq> NaN" for v using that by (cases v) simp_all
  ultimately show ?thesis by (simp add: fl_def)
qed

lemma js_mul_100_NaN: "js_mul v (Fin 100) = NaN \<longleftrightarrow> v = NaN"
  by (cases v) simp_all

lemma js_round_NaN: "js_round v = NaN \<longleftrightarrow> v = NaN"
  by (cases v) simp_all

lemma js_div_NaN: "0 < st \<Longrightarrow> js_div (Fin (real st)) n = NaN \<longleftrightarrow> n = NaN"
  by (cases n) simp_all

lemma progress_NaN: "0 < st \<Longrightarrow> progress_of st n = NaN \<longleftrightarrow> n = NaN"
  by (simp add: progress_of_def js_min_def js_round_NaN js_mul_100_NaN js_div_NaN)

lemma progress_of_NaN [simp]: "progress_of st NaN = NaN"
  by (simp add: progress_of_def js_min_def)

lemma progress_NaN_Suc [simp]: "progress_of (Suc k) n = NaN \<longleftrightarrow> n = NaN"
  by (rule progress_NaN) simp

lemma write_throws_simps [simp]:
  "write_throws (Some e) p jid s = Some e"
  "p \<noteq> NaN \<Longrightarrow> write_throws None p jid s = None"
  "jobs s jid = None \<Longrightarrow> write_throws None p jid s = None"
  "jobs s jid = Some r \<Longrightarrow> write_throws None NaN jid s = Some not_null_error"
  by (simp_all add: write_throws_def)

lemma totalSteps_default: "totalSteps_of \<lparr>epochs = None, stepsPerEpoch = None\<rparr> = Fin 100"
  by (simp add: totalSteps_of_def js_max_def fl_eval)

lemma totalSteps_3_10:
  "totalSteps_of \<lparr>epochs = Some (Fin 3), stepsPerEpoch = Some (Fin 10)\<rparr> = Fin 30"
  by (simp add: totalSteps_of_def js_max_def fl_eval)

text \<open>
  The accuracy of the first tick of a job with 20 steps at the draw 0.125: the exact
  value of the expression is 0.50625, halfway between two decimals, the sum of the
  doubles lies below it, and the sample holds 0.5062.
\<close>

lemma quot_1_20: "js_div (Fin 1) (Fin 20) = Fin (3602879701896397 / 72057594037927936)"
  by (simp add: fl_eval)

lemma accuracy_at_tie:
  "accuracy_of (js_div (Fin 1) (Fin 20)) (1 / 8) = fl (5062 / 10000)"
  unfolding quot_1_20
  by (simp add: accuracy_of_def js_sub_def fl_eval toFixed4_def)

subsection \<open>The store\<close>

lemma sql_update_apply [simp]:
  "sql_update jid f tbl k = (if k = jid then map_option f (tbl jid) else tbl k)"
  by (simp add: sql_update_def split: option.splits)

subsection \<open>Single ticks\<close>

lemma pushed_simps [simp]:
  "intervalId (pushed env c) = intervalId c"
  "startTime (pushed env c) = startTime c"
  "jobId (pushed env c) = jobId c"
  "totalSteps (pushed env c) = totalSteps c"
  "step (pushed env c) = step c + 1"
  "metrics (pushed env c) = metrics c @ [sample env c (step c + 1)]"
  by (simp_all add: pushed_def)

lemma tick_continue:
  assumes "\<not> finished (totalSteps c) (step c + 1)" and "flush_throws env = None"
    and "totalSteps c \<noteq> NaN"
  shows "tick env c s =
           s\<lparr>intervals := (intervals s)(intervalId c \<mapsto> pushed env c),
             jobs := (if (step c + 1) mod 2 = 0 \<or> progress_of (step c + 1) (totalSteps c) = Fin 100
                      then sql_update (jobId c)
                             (\<lambda>r. r\<lparr>progress := progress_of (step c + 1) (totalSteps c),
                                     metrics_json := toJson (metrics (pushed env c))\<rparr>) (jobs s)
                      else jobs s)\<rparr>"
  using assms by (simp add: tick_def Let_def pushed_def finished_def)

lemma tick_final:
  assumes "finished (totalSteps c) (step c + 1)" and "quiet env"
  shows "tick env c s =
           s\<lparr>intervals := (intervals s)(intervalId c := None),
             jobTimers := (jobTimers s)(jobId c := None),
             jobs := sql_update (jobId c)
                       (\<lambda>r. r\<lparr>status := Completed, progress := Fin 100,
                               metrics_json := toJson (metrics (pushed env c))\<rparr>) (jobs s)\<rparr>"
proof -
  have "totalSteps c \<noteq> NaN" using assms(1) by (auto simp: finished_def js_ge_def)
  then show ?thesis
    using assms by (auto simp: tick_def Let_def pushed_def quiet_def finished_def sql_update_def fun_eq_iff
        split: option.splits intro!: state.equality)
qed

lemma tick_flush_crash:
  assumes "(step c + 1) mod 2 = 0 \<or> progress_of (step c + 1) (totalSteps c) = Fin 100"
    and "flush_throws env = Some e"
  shows "tick env c s = s\<lparr>intervals := (intervals s)(intervalId c \<mapsto> pushed env c), crashed := Some e\<rparr>"
  using assms by (auto simp: tick_def Let_def pushed_def)


subsection \<open>Runs of ticks\<close>

lemma run_Nil [simp]: "run [] s = s"
  by (simp add: run_def)

lemma run_Cons [simp]: "run (ev # evs) s = run evs (exec ev s)"
  by (simp add: run_def)

lemma run_append [simp]: "run (xs @ ys) s = run ys (run xs s)"
  by (simp add: run_def)

lemma sample_pushed [simp]: "sample env (pushed e c) k = sample env c k"
  by (simp add: sample_def)

lemma advance_simps [simp]:
  "intervalId (advance es c) = intervalId c"
  "startTime (advance es c) = startTime c"
  "jobId (advance es c) = jobId c"
  "totalSteps (advance es c) = totalSteps c"
  "step (advance es c) = step c + length es"
  by (induction es arbitrary: c) simp_all

lemma sample_advance [simp]: "sample env (advance es c) k = sample env c k"
  by (simp add: sample_def)

lemma advance_snoc: "advance (es @ [e]) c = pushed e (advance es c)"
  by (induction es arbitrary: c) simp_all

lemma metrics_advance:
  "metrics (advance es c)
   = metrics c @ map (\<lambda>(e, k). sample e c (step c + Suc k)) (zip es [0..<length es])"
proof (induction es rule: rev_induct)
  case Nil
  then show ?case by simp
next
  case (snoc e es)
  then show ?case by (simp add: advance_snoc)
qed

lemma exec_live_tick: "live c s \<Longrightarrow> exec (Tick (intervalId c) env) s = tick env c s"
  by (simp add: live_def)

lemma live_tick_continue:
  assumes "live c s" "\<not> finished (totalSteps c) (step c + 1)" "flush_throws env = None"
    "totalSteps c \<noteq> NaN"
  shows "live (pushed env c) (exec (Tick (intervalId c) env) s)"
  using assms by (auto simp: exec_live_tick tick_continue live_def)

lemma live_ticks:
  assumes "live c s" and "\<forall>e\<in>set es. flush_throws e = None"
    and "\<forall>k. step c < k \<and> k \<le> step c + length es \<longrightarrow> \<not> finished (totalSteps c) k"
    and "totalSteps c \<noteq> NaN"
  shows "live (advance es c) (run (map (Tick (intervalId c)) es) s)"
  using assms
proof (induction es arbitrary: c s)
  case Nil
  then show ?case by simp
next
  case (Cons e es)
  have first: "\<not> finished (totalSteps c) (step c + 1)"
    using Cons.prems(3) by simp
  have l: "live (pushed e c) (exec (Tick (intervalId c) e) s)"
    using live_tick_continue [OF Cons.prems(1) first _ Cons.prems(4)] Cons.prems(2) by simp
  have rest: "\<forall>k. step (pushed e c) < k \<and> k \<le> step (pushed e c) + length es \<longrightarrow>
                \<not> finished (totalSteps (pushed e c)) k"
    using Cons.prems(3) by simp
  have "live (advance es (pushed e c)) (run (map (Tick (intervalId (pushed e c))) es)
          (exec (Tick (intervalId c) e) s))"
    using Cons.IH [OF l _ rest] Cons.prems(2,4) by simp
  then show ?case by simp
qed


lemma fresh_sim_simps [simp]:
  "intervalId (fresh_sim env iid jid cfg) = iid"
  "startTime (fresh_sim env iid jid cfg) = start_now env"
  "jobId (fresh_sim env iid jid cfg) = jid"
  "totalSteps (fresh_sim env iid jid cfg) = totalSteps_of cfg"
  "step (fresh_sim env iid jid cfg) = 0"
  "metrics (fresh_sim env iid jid cfg) = []"
  by (simp_all add: fresh_sim_def)

lemma createJob_ok:
  assumes "pid \<in> projects s" and "setRunning_throws env = None"
    and "\<forall>m. mid = Some m \<longrightarrow> m \<in> models s"
  shows "createJob env pid mid ty cfg s =
          (Status201 (Some \<lparr>project_id = pid, model_id = mid, job_type = ty, status = Running,
                             progress = Fin 0, metrics_json = [], error = None\<rparr>) [],
           s\<lparr>jobs := (jobs s)(lastJobId s + 1 \<mapsto>
                       \<lparr>project_id = pid, model_id = mid, job_type = ty, status = Running,
                        progress = Fin 0, metrics_json = [], error = None\<rparr>),
             lastJobId := lastJobId s + 1,
             intervals := (intervals s)(lastIntervalId s + 1 \<mapsto>
                             fresh_sim env (lastIntervalId s + 1) (lastJobId s + 1) cfg),
             lastIntervalId := lastIntervalId s + 1,
             jobTimers := (jobTimers s)(lastJobId s + 1 \<mapsto>
                             \<lparr>intervalId = lastIntervalId s + 1, startTime = start_now env\<rparr>)\<rparr>)"
  using assms
  by (auto simp: createJob_def runTrainingSimulation_def Let_def fresh_sim_def fun_eq_iff
        split: option.splits intro!: state.equality)

lemma createJob_live:
  assumes "pid \<in> projects s" and "setRunning_throws env = None"
    and "\<forall>m. mid = Some m \<longrightarrow> m \<in> models s" and "crashed s = None"
  shows "live (fresh_sim env (lastIntervalId s + 1) (lastJobId s + 1) cfg)
           (exec (Create env pid mid ty cfg) s)"
  using assms by (simp add: createJob_ok live_def)

lemma toFixed4_bounds:
  assumes "0 \<le> x"
  shows "x - 1 / 20000 \<le> toFixed4 x" and "toFixed4 x \<le> x + 1 / 20000"
proof -
  have a: "x * 10000 + 1 / 2 - 1 < of_int \<lfloor>x * 10000 + 1 / 2\<rfloor>" by linarith
  have b: "of_int \<lfloor>x * 10000 + 1 / 2\<rfloor> \<le> x * 10000 + 1 / 2" by linarith
  show "x - 1 / 20000 \<le> toFixed4 x" using assms a by (simp add: toFixed4_def field_simps)
  show "toFixed4 x \<le> x + 1 / 20000" using assms b by (simp add: toFixed4_def field_simps)
qed

lemma quot_1_100: "js_div (Fin 1) (Fin 100) = Fin (5764607523034235 / 576460752303423488)"
  by (simp add: fl_eval)

lemma quot_100_100: "js_div (Fin 100) (Fin 100) = Fin 1"
  by (simp add: fl_eval)

lemma totalSteps_defaults:
  assumes "e = None \<or> e = Some (Fin 5)" and "p = None \<or> p = Some (Fin 20)"
  shows "totalSteps_of \<lparr>epochs = e, stepsPerEpoch = p\<rparr> = Fin 100"
  using assms by (auto simp: totalSteps_of_def js_max_def fl_eval)

lemma finished_Fin [simp]: "finished (Fin n) k = (n \<le> real k)"
  by (simp add: finished_def js_ge_def)

lemma toJson_length [simp]: "length (toJson ms) = length ms"
  by (simp add: toJson_def)

lemma toJson_nth: "k < length ms \<Longrightarrow> toJson ms ! k = map (\<lambda>(k, v). (k, json_of_num v)) (ms ! k)"
  by (simp add: toJson_def)

lemma loss_of_sample:
  "map_of (map (\<lambda>(k, v). (k, json_of_num v)) (sample e c k)) ''loss''
   = Some (json_of_num (loss_of (js_div (Fin (real k)) (totalSteps c)) (draw_value (rand1 e))))"
  by (simp add: sample_def Let_def)

lemma advance_fresh_length [simp]:
  "length (metrics (advance es (fresh_sim env iid jid cfg))) = length es"
  by (simp add: metrics_advance)

lemma hd_toJson_fresh:
  assumes "es \<noteq> []"
  shows "hd (toJson (metrics (advance es (fresh_sim env iid jid cfg))))
         = map (\<lambda>(k, v). (k, json_of_num v)) (sample (hd es) (fresh_sim env iid jid cfg) 1)"
  using assms by (cases es) (simp_all add: toJson_def metrics_advance upt_conv_Cons)

lemma last_toJson_fresh:
  assumes "es \<noteq> []"
  shows "last (toJson (metrics (advance es (fresh_sim env iid jid cfg))))
         = map (\<lambda>(k, v). (k, json_of_num v))
             (sample (last es) (fresh_sim env iid jid cfg) (length es))"
  using assms by (cases es rule: rev_cases) (simp_all add: toJson_def metrics_advance)

subsection \<open>Rounding to the nearest double on two intervals\<close>

lemma rne_lower: "x - 1 / 2 \<le> of_int (rne x)"
  by (auto simp: rne_def Let_def) linarith+

lemma rne_upper: "of_int (rne x) \<le> x + 1 / 2"
  by (auto simp: rne_def Let_def) linarith+

lemma rne_ge: "of_int n - 1 / 2 < x \<Longrightarrow> n \<le> rne x"
  by (auto simp: rne_def Let_def) linarith+

lemma rne_le: "x \<le> of_int n \<Longrightarrow> rne x \<le> n"
  by (auto simp: rne_def Let_def) linarith+

lemma rne_le_real: "x \<le> of_int n \<Longrightarrow> real_of_int (rne x) \<le> of_int n"
  using rne_le [of x n] by (simp only: of_int_le_iff)

lemma rne_ge_real: "of_int n - 1 / 2 < x \<Longrightarrow> of_int n \<le> real_of_int (rne x)"
  using rne_ge [of n x] by (simp only: of_int_le_iff)

lemma fl_unit_interval:
  assumes "1 / 2 \<le> x" and "x < 1"
  shows "fl x = Fin (of_int (rne (x * 2 ^ 53)) / 2 ^ 53)"
proof -
  have e: "binexp x = - 1" using assms by (simp add: binexp_def)
  have "x * 2 ^ 53 \<le> of_int (2 ^ 53)" using assms by simp
  then have "real_of_int (rne (x * 2 ^ 53)) \<le> of_int (2 ^ 53)" by (rule rne_le_real)
  then have "real_of_int (rne (x * 2 ^ 53)) \<le> 2 ^ 53" by simp
  then have "real_of_int (rne (x * 2 ^ 53)) / 2 ^ 53 \<le> 1" by simp
  then have "\<not> 2 ^ 1024 \<le> real_of_int (rne (x * 2 ^ 53)) / 2 ^ 53" by simp
  then show ?thesis using assms by (simp add: fl_def fl_pos_def e pow2_def)
qed

lemma fl_64_128:
  assumes "64 \<le> x" and "x < 128"
  shows "fl x = Fin (of_int (rne (x * 2 ^ 46)) / 2 ^ 46)"
proof -
  have e: "binexp x = 6" using assms by (simp add: binexp_def)
  have "real_of_int (rne (x * 2 ^ 46)) \<le> x * 2 ^ 46 + 1 / 2" by (rule rne_upper)
  also have "\<dots> < 129 * 2 ^ 46" using assms by simp
  finally have "real_of_int (rne (x * 2 ^ 46)) / 2 ^ 46 < 129" by (simp add: field_simps)
  then have "\<not> 2 ^ 1024 \<le> real_of_int (rne (x * 2 ^ 46)) / 2 ^ 46" by simp
  then show ?thesis using assms by (simp add: fl_def fl_pos_def e pow2_def)
qed

lemma scale_53: "y * 2 ^ 53 - 1 / 2 \<le> m \<Longrightarrow> y - 1 / 2 ^ 54 \<le> m / 2 ^ 53" for y m :: real
  by (simp add: field_simps)

lemma scale_46: "199 * 2 ^ 45 \<le> m \<Longrightarrow> 199 / 2 \<le> m / 2 ^ 46" for m :: real
  by (simp add: field_simps)

lemma progress_near_end:
  assumes "0 < t" and "199 / 200 * t \<le> real k" and "real k < t"
  shows "progress_of k (Fin t) = Fin 100"
proof -
  define x where "x = real k / t"
  have x1: "x < 1" using assms by (simp add: x_def)
  have x2: "199 / 200 \<le> x" using assms by (simp add: x_def field_simps)
  then have x3: "1 / 2 \<le> x" by linarith
  define d where "d = real_of_int (rne (x * 2 ^ 53)) / 2 ^ 53"
  have fx: "fl x = Fin d" unfolding d_def by (rule fl_unit_interval [OF x3 x1])
  have "x * 2 ^ 53 - 1 / 2 \<le> real_of_int (rne (x * 2 ^ 53))" by (rule rne_lower)
  then have d1: "x - 1 / 2 ^ 54 \<le> d" unfolding d_def by (rule scale_53)
  have "x * 2 ^ 53 \<le> of_int (2 ^ 53)" using x1 by simp
  then have "real_of_int (rne (x * 2 ^ 53)) \<le> of_int (2 ^ 53)" by (rule rne_le_real)
  then have "real_of_int (rne (x * 2 ^ 53)) \<le> 2 ^ 53" by simp
  then have d2: "d \<le> 1" unfolding d_def by simp
  have d3: "199 / 200 - 1 / 2 ^ 54 \<le> d" using d1 x2 by linarith
  have z1: "64 \<le> d * 100" using d3 by simp
  have z2: "d * 100 < 128" using d2 by simp
  define v where "v = real_of_int (rne (d * 100 * 2 ^ 46)) / 2 ^ 46"
  have fz: "fl (d * 100) = Fin v" unfolding v_def by (rule fl_64_128 [OF z1 z2])
  have "of_int (199 * 2 ^ 45) - 1 / 2 < d * 100 * 2 ^ 46" using d3 by simp
  then have "real_of_int (199 * 2 ^ 45) \<le> real_of_int (rne (d * 100 * 2 ^ 46))"
    by (rule rne_ge_real)
  then have "199 * 2 ^ 45 \<le> real_of_int (rne (d * 100 * 2 ^ 46))" by simp
  then have v1: "199 / 2 \<le> v" unfolding v_def by (rule scale_46)
  define n where "n = \<lfloor>v + 1 / 2\<rfloor>"
  have "100 \<le> n" unfolding n_def using v1 by linarith
  then have "js_min (Fin (real_of_int n)) (Fin 100) = Fin 100"
    by (cases "n = 100") (auto simp: js_min_def)
  then have m: "js_min (Fin (real_of_int \<lfloor>v + 1 / 2\<rfloor>)) (Fin 100) = Fin 100"
    by (simp add: n_def)
  have q: "js_div (Fin (real k)) (Fin t) = Fin d"
    using assms(1) fx by (simp add: x_def)
  show ?thesis unfolding progress_of_def q using fz m by simp
qed

lemma totalSteps_10_20:
  "totalSteps_of \<lparr>epochs = Some (Fin 10), stepsPerEpoch = Some (Fin 20)\<rparr> = Fin 200"
  by (simp add: totalSteps_of_def js_max_def fl_eval)

subsection \<open>The routes, case by case\<close>

lemma createJob_start_fails:
  assumes "pid \<in> projects s" and "setRunning_throws env = Some e" and "fallback_throws env = None"
    and "\<forall>m. mid = Some m \<longrightarrow> m \<in> models s"
  shows "createJob env pid mid ty cfg s =
          (Status201 (Some \<lparr>project_id = pid, model_id = mid, job_type = ty, status = Queued,
                             progress = Fin 0, metrics_json = [], error = None\<rparr>) [],
           s\<lparr>jobs := (jobs s)(lastJobId s + 1 \<mapsto>
                       \<lparr>project_id = pid, model_id = mid, job_type = ty, status = Failed,
                        progress = Fin 0, metrics_json = [], error = Some (errString e)\<rparr>),
             lastJobId := lastJobId s + 1\<rparr>)"
  using assms
  by (auto simp: createJob_def runTrainingSimulation_def Let_def fun_eq_iff
        split: option.splits intro!: state.equality)

lemma cancelJob_row:
  assumes "jobs s jid = Some job"
  shows "cancelJob jid s =
          (Status200 (job\<lparr>status := Canceled\<rparr>) (metrics_json job),
           s\<lparr>intervals := (case jobTimers s jid of None \<Rightarrow> intervals s
                            | Some timer \<Rightarrow> (intervals s)(intervalId timer := None)),
             jobTimers := (jobTimers s)(jid := None),
             jobs := (jobs s)(jid \<mapsto> job\<lparr>status := Canceled\<rparr>)\<rparr>)"
  using assms
  by (auto simp: cancelJob_def Let_def fun_eq_iff split: option.splits intro!: state.equality)

subsection \<open>The invariant holds in every reachable state\<close>

lemma grown_pushed: "grown c \<Longrightarrow> grown (pushed env c)"
  unfolding grown_def by (metis advance_snoc)

lemma grown_fresh: "grown (fresh_sim env iid jid cfg)"
  unfolding grown_def by (rule exI [of _ "fresh_sim env iid jid cfg"], rule exI [of _ "[]"]) simp

lemma stored_ok_Nil: "stored_ok []"
  unfolding stored_ok_def using grown_fresh [of undefined 0 0 undefined]
  by (metis fresh_sim_simps(6) toJson_def list.simps(8))

lemma toJson_append: "toJson (xs @ ys) = toJson xs @ toJson ys"
  by (simp add: toJson_def)

lemma invI:
  assumes "\<And>i c. intervals s i = Some c \<Longrightarrow> sim_ok s i c"
    and "\<And>j r. jobs s j = Some r \<Longrightarrow> j \<le> lastJobId s \<and> stored_ok (metrics_json r)"
    and "\<And>j h. jobTimers s j = Some h \<Longrightarrow> \<exists>c. intervals s (intervalId h) = Some c \<and> jobId c = j"
  shows "inv s"
  using assms unfolding inv_def by blast

lemma inv_reg:
  "inv s \<Longrightarrow> jobTimers s j = Some h \<Longrightarrow> \<exists>c. intervals s (intervalId h) = Some c \<and> jobId c = j"
  unfolding inv_def by blast

lemma inv_sim: "inv s \<Longrightarrow> intervals s i = Some c \<Longrightarrow> sim_ok s i c"
  unfolding inv_def by blast

lemma inv_row: "inv s \<Longrightarrow> jobs s j = Some r \<Longrightarrow> j \<le> lastJobId s \<and> stored_ok (metrics_json r)"
  unfolding inv_def by blast

lemma inv_unique:
  assumes "inv s" and "intervals s i = Some c" and "intervals s i' = Some c'"
    and "jobId c' = jobId c"
  shows "i' = i \<and> c' = c"
proof -
  have "sim_ok s i c" "sim_ok s i' c'" using assms by (auto dest: inv_sim)
  then have "i' = i" using assms(4) by (simp add: sim_ok_def)
  then show ?thesis using assms(2,3) by simp
qed

lemma stored_ok_grown: "grown c \<Longrightarrow> stored_ok (toJson (metrics c))"
  by (auto simp: stored_ok_def)

lemma inv_init: "inv (init ps)"
  by (simp add: inv_def init_def)

lemma inv_crash: "inv s \<Longrightarrow> inv (s\<lparr>crashed := x\<rparr>)"
  by (simp add: inv_def sim_ok_def)

lemma inv_push:
  assumes "inv s" and "intervals s i = Some c"
  shows "inv (s\<lparr>intervals := (intervals s)(i \<mapsto> pushed env c)\<rparr>)"
proof (rule invI)
  fix i' c'
  assume c': "intervals (s\<lparr>intervals := (intervals s)(i \<mapsto> pushed env c)\<rparr>) i' = Some c'"
  show "sim_ok (s\<lparr>intervals := (intervals s)(i \<mapsto> pushed env c)\<rparr>) i' c'"
  proof (cases "i' = i")
    case True
    then have eq: "c' = pushed env c" using c' by simp
    have ok: "sim_ok s i c" using assms by (rule inv_sim)
    then obtain r where r: "jobs s (jobId c) = Some r" "status r = Running"
      "prefix (metrics_json r) (toJson (metrics c))"
      by (auto simp: sim_ok_def)
    have "prefix (metrics_json r) (toJson (metrics (pushed env c)))"
      using r(3) by (simp add: toJson_append)
    then show ?thesis using ok r True by (simp add: sim_ok_def eq grown_pushed)
  next
    case False
    then have "intervals s i' = Some c'" using c' by simp
    then have "sim_ok s i' c'" using assms(1) by (rule inv_sim [rotated])
    then show ?thesis by (simp add: sim_ok_def)
  qed
next
  fix j r assume "jobs (s\<lparr>intervals := (intervals s)(i \<mapsto> pushed env c)\<rparr>) j = Some r"
  then show "j \<le> lastJobId (s\<lparr>intervals := (intervals s)(i \<mapsto> pushed env c)\<rparr>)
             \<and> stored_ok (metrics_json r)"
    using inv_row [OF assms(1)] by simp
next
  fix j h assume "jobTimers (s\<lparr>intervals := (intervals s)(i \<mapsto> pushed env c)\<rparr>) j = Some h"
  then obtain c' where "intervals s (intervalId h) = Some c'" "jobId c' = j"
    using inv_reg [OF assms(1)] by auto
  then show "\<exists>c'. intervals (s\<lparr>intervals := (intervals s)(i \<mapsto> pushed env c)\<rparr>) (intervalId h)
                   = Some c' \<and> jobId c' = j"
    using assms(2) by auto
qed

lemma inv_flush:
  assumes "inv s" and "intervals s i = Some c"
  shows "inv (s\<lparr>jobs := sql_update (jobId c)
                  (\<lambda>r. r\<lparr>progress := p, metrics_json := toJson (metrics c)\<rparr>) (jobs s)\<rparr>)"
    (is "inv ?s")
proof (rule invI)
  fix i' c' assume "intervals ?s i' = Some c'"
  then have c': "intervals s i' = Some c'" by simp
  then have ok: "sim_ok s i' c'" using assms(1) by (rule inv_sim [rotated])
  show "sim_ok ?s i' c'"
  proof (cases "jobId c' = jobId c")
    case True
    then have "c' = c" using inv_unique [OF assms c'] by simp
    then show ?thesis using ok by (auto simp: sim_ok_def)
  next
    case False
    then show ?thesis using ok by (auto simp: sim_ok_def)
  qed
next
  fix j r assume j: "jobs ?s j = Some r"
  have "grown c" using inv_sim [OF assms] by (simp add: sim_ok_def)
  then have "stored_ok (toJson (metrics c))" by (rule stored_ok_grown)
  then show "j \<le> lastJobId ?s \<and> stored_ok (metrics_json r)"
    using j inv_row [OF assms(1)] by (auto split: if_splits)
next
  fix j h assume "jobTimers ?s j = Some h"
  then show "\<exists>c. intervals ?s (intervalId h) = Some c \<and> jobId c = j"
    using inv_reg [OF assms(1)] by simp
qed

lemma inv_stop:
  assumes "inv s" and "intervals s i = Some c"
  shows "inv (s\<lparr>intervals := (intervals s)(i := None),
                 jobTimers := (jobTimers s)(jobId c := None)\<rparr>)"
    (is "inv ?s")
proof (rule invI)
  fix i' c' assume "intervals ?s i' = Some c'"
  then have c': "intervals s i' = Some c'" "i' \<noteq> i" by (auto split: if_splits)
  then have ok: "sim_ok s i' c'" using assms(1) by (auto dest: inv_sim)
  have "jobId c' \<noteq> jobId c" using inv_unique [OF assms c'(1)] c'(2) by auto
  then show "sim_ok ?s i' c'" using ok by (simp add: sim_ok_def)
next
  fix j r assume "jobs ?s j = Some r"
  then show "j \<le> lastJobId ?s \<and> stored_ok (metrics_json r)"
    using inv_row [OF assms(1)] by simp
next
  fix j h assume "jobTimers ?s j = Some h"
  then have j: "j \<noteq> jobId c" "jobTimers s j = Some h" by (auto split: if_splits)
  then obtain c' where c': "intervals s (intervalId h) = Some c'" "jobId c' = j"
    using inv_reg [OF assms(1)] by blast
  then have "intervalId h \<noteq> i" using assms(2) j(1) by auto
  then show "\<exists>c. intervals ?s (intervalId h) = Some c \<and> jobId c = j" using c' by simp
qed

lemma no_timer_no_sim:
  assumes "inv s" and "jobTimers s jid = None" and "intervals s i = Some c"
  shows "jobId c \<noteq> jid"
  using inv_sim [OF assms(1,3)] assms(2) by (auto simp: sim_ok_def)

lemma inv_rewrite:
  assumes "inv s" and "jobTimers s jid = None" and "\<And>r. stored_ok (metrics_json r) \<Longrightarrow> stored_ok (metrics_json (f r))"
  shows "inv (s\<lparr>jobs := sql_update jid f (jobs s)\<rparr>)" (is "inv ?s")
proof (rule invI)
  fix i c assume "intervals ?s i = Some c"
  then have c: "intervals s i = Some c" by simp
  then have ok: "sim_ok s i c" using assms(1) by (auto dest: inv_sim)
  have "jobId c \<noteq> jid" using no_timer_no_sim [OF assms(1,2) c] .
  then show "sim_ok ?s i c" using ok by (simp add: sim_ok_def)
next
  fix j r assume "jobs ?s j = Some r"
  then show "j \<le> lastJobId ?s \<and> stored_ok (metrics_json r)"
    using inv_row [OF assms(1)] assms(3) by (auto split: if_splits)
next
  fix j h assume "jobTimers ?s j = Some h"
  then show "\<exists>c. intervals ?s (intervalId h) = Some c \<and> jobId c = j"
    using inv_reg [OF assms(1)] by simp
qed


lemma tick_alt:
  "tick env c s =
     (let c' = pushed env c;
          p = progress_of (step c') (totalSteps c');
          s1 = s\<lparr>intervals := (intervals s)(intervalId c \<mapsto> c')\<rparr>;
          flush = (step c' mod 2 = 0 \<or> p = Fin 100);
          err = write_throws (flush_throws env) p (jobId c) s
      in if flush \<and> err \<noteq> None then s1\<lparr>crashed := err\<rparr>
         else
           let s2 = (if flush
                     then s1\<lparr>jobs := sql_update (jobId c')
                                 (\<lambda>r. r\<lparr>progress := p, metrics_json := toJson (metrics c')\<rparr>)
                                 (jobs s1)\<rparr>
                     else s1)
           in if finished (totalSteps c') (step c')
              then
                let s3 = s2\<lparr>intervals := (intervals s2)(intervalId c := None),
                            jobTimers := (jobTimers s2)(jobId c' := None)\<rparr>
                in (case final_throws env of
                      Some e \<Rightarrow> s3\<lparr>crashed := Some e\<rparr>
                    | None \<Rightarrow>
                        s3\<lparr>jobs := sql_update (jobId c')
                              (\<lambda>r. r\<lparr>status := Completed, progress := Fin 100,
                                      metrics_json := toJson (metrics c')\<rparr>) (jobs s3)\<rparr>)
              else s2)"
  by (simp add: tick_def pushed_def finished_def Let_def split: option.splits)

lemma inv_tick:
  assumes "inv s" and "intervals s i = Some c"
  shows "inv (tick env c s)"
proof -
  have i: "intervalId c = i" using inv_sim [OF assms] by (simp add: sim_ok_def)
  define c' where "c' = pushed env c"
  define p where "p = progress_of (step c') (totalSteps c')"
  define s1 where "s1 = s\<lparr>intervals := (intervals s)(intervalId c \<mapsto> c')\<rparr>"
  define s2f where "s2f = s1\<lparr>jobs := sql_update (jobId c')
                                 (\<lambda>r. r\<lparr>progress := p, metrics_json := toJson (metrics c')\<rparr>)
                                 (jobs s1)\<rparr>"
  have inv1: "inv s1" unfolding s1_def c'_def i by (rule inv_push [OF assms])
  have at1: "intervals s1 i = Some c'" by (simp add: s1_def i)
  have inv2f: "inv s2f" unfolding s2f_def by (rule inv_flush [OF inv1 at1])
  have at2f: "intervals s2f i = Some c'" by (simp add: s2f_def at1)
  have grown': "grown c'" using inv_sim [OF inv1 at1] by (simp add: sim_ok_def)
  have fin: "inv (case final_throws env of
                      Some e \<Rightarrow> s3\<lparr>crashed := Some e\<rparr>
                    | None \<Rightarrow>
                        s3\<lparr>jobs := sql_update (jobId c')
                              (\<lambda>r. r\<lparr>status := Completed, progress := Fin 100,
                                      metrics_json := toJson (metrics c')\<rparr>) (jobs s3)\<rparr>)"
    if "inv s2" and "intervals s2 i = Some c'"
      and "s3 = s2\<lparr>intervals := (intervals s2)(i := None),
                            jobTimers := (jobTimers s2)(jobId c' := None)\<rparr>" for s2 s3
  proof -
    have inv3: "inv s3" unfolding that(3) by (rule inv_stop [OF that(1,2)])
    have none: "jobTimers s3 (jobId c') = None" by (simp add: that(3))
    have "inv (s3\<lparr>jobs := sql_update (jobId c')
                              (\<lambda>r. r\<lparr>status := Completed, progress := Fin 100,
                                      metrics_json := toJson (metrics c')\<rparr>) (jobs s3)\<rparr>)"
      by (rule inv_rewrite [OF inv3 none]) (simp add: stored_ok_grown [OF grown'])
    then show ?thesis using inv3 by (auto split: option.splits intro: inv_crash)
  qed
  show ?thesis
    unfolding tick_alt Let_def c'_def [symmetric] p_def [symmetric] i
      s1_def [symmetric, unfolded i] s2f_def [symmetric]
    using inv1 inv2f at1 at2f fin [OF inv1 at1 refl] fin [OF inv2f at2f refl]
    by (auto intro: inv_crash)
qed


lemma createJob_fallback_fails:
  assumes "pid \<in> projects s" and "setRunning_throws env = Some e" and "fallback_throws env = Some e'"
    and "\<forall>m. mid = Some m \<longrightarrow> m \<in> models s"
  shows "createJob env pid mid ty cfg s =
          (Status201 (Some \<lparr>project_id = pid, model_id = mid, job_type = ty, status = Queued,
                             progress = Fin 0, metrics_json = [], error = None\<rparr>) [],
           s\<lparr>jobs := (jobs s)(lastJobId s + 1 \<mapsto>
                       \<lparr>project_id = pid, model_id = mid, job_type = ty, status = Queued,
                        progress = Fin 0, metrics_json = [], error = None\<rparr>),
             lastJobId := lastJobId s + 1, crashed := Some e'\<rparr>)"
  using assms
  by (auto simp: createJob_def runTrainingSimulation_def Let_def fun_eq_iff
        split: option.splits intro!: state.equality)

lemma createJob_no_project:
  "pid \<notin> projects s \<Longrightarrow> createJob env pid mid ty cfg s = (Status404 ''Project not found'', s)"
  by (simp add: createJob_def)

lemma createJob_no_model:
  "pid \<in> projects s \<Longrightarrow> m \<notin> models s \<Longrightarrow>
   createJob env pid (Some m) ty cfg s = (Status500 foreign_key_error, s)"
  by (simp add: createJob_def)

lemma inv_insert:
  assumes "inv s" and "metrics_json row = []"
  shows "inv (s\<lparr>jobs := (jobs s)(lastJobId s + 1 \<mapsto> row), lastJobId := lastJobId s + 1\<rparr>)"
    (is "inv ?s")
proof (rule invI)
  fix i c assume "intervals ?s i = Some c"
  then have c: "intervals s i = Some c" by simp
  then have ok: "sim_ok s i c" using assms(1) by (auto dest: inv_sim)
  then have "jobId c \<le> lastJobId s" using inv_row [OF assms(1)] by (auto simp: sim_ok_def)
  then show "sim_ok ?s i c" using ok by (auto simp: sim_ok_def)
next
  fix j r assume "jobs ?s j = Some r"
  then show "j \<le> lastJobId ?s \<and> stored_ok (metrics_json r)"
    using inv_row [OF assms(1)] assms(2) by (auto simp: stored_ok_Nil le_Suc_eq split: if_splits)
next
  fix j h assume "jobTimers ?s j = Some h"
  then show "\<exists>c. intervals ?s (intervalId h) = Some c \<and> jobId c = j"
    using inv_reg [OF assms(1)] by simp
qed

lemma inv_started:
  assumes "inv s" and "metrics_json row = []" and "status row = Running"
  shows "inv (s\<lparr>jobs := (jobs s)(lastJobId s + 1 \<mapsto> row),
                 lastJobId := lastJobId s + 1,
                 intervals := (intervals s)(lastIntervalId s + 1 \<mapsto>
                                 fresh_sim env (lastIntervalId s + 1) (lastJobId s + 1) cfg),
                 lastIntervalId := lastIntervalId s + 1,
                 jobTimers := (jobTimers s)(lastJobId s + 1 \<mapsto>
                                 \<lparr>intervalId = lastIntervalId s + 1, startTime = start_now env\<rparr>)\<rparr>)"
    (is "inv ?s")
proof (rule invI)
  fix i c assume c: "intervals ?s i = Some c"
  show "sim_ok ?s i c"
  proof (cases "i = lastIntervalId s + 1")
    case True
    then have "c = fresh_sim env (lastIntervalId s + 1) (lastJobId s + 1) cfg" using c by simp
    then show ?thesis using True assms(2,3) by (simp add: sim_ok_def grown_fresh)
  next
    case False
    then have c': "intervals s i = Some c" using c by simp
    then have ok: "sim_ok s i c" using assms(1) by (auto dest: inv_sim)
    then have "jobId c \<le> lastJobId s" using inv_row [OF assms(1)] by (auto simp: sim_ok_def)
    then show ?thesis using ok by (auto simp: sim_ok_def)
  qed
next
  fix j r assume "jobs ?s j = Some r"
  then show "j \<le> lastJobId ?s \<and> stored_ok (metrics_json r)"
    using inv_row [OF assms(1)] assms(2) by (auto simp: stored_ok_Nil le_Suc_eq split: if_splits)
next
  fix j h assume h: "jobTimers ?s j = Some h"
  show "\<exists>c. intervals ?s (intervalId h) = Some c \<and> jobId c = j"
  proof (cases "j = lastJobId s + 1")
    case True
    then show ?thesis using h by auto
  next
    case False
    then have "jobTimers s j = Some h" using h by simp
    then obtain c where c: "intervals s (intervalId h) = Some c" "jobId c = j"
      using inv_reg [OF assms(1)] by blast
    then have "intervalId h \<le> lastIntervalId s"
      using inv_sim [OF assms(1) c(1)] by (simp add: sim_ok_def)
    then show ?thesis using c by simp
  qed
qed

lemma inv_createJob:
  assumes "inv s"
  shows "inv (snd (createJob env pid mid ty cfg s))"
proof (cases "pid \<in> projects s")
  case False
  then show ?thesis using assms by (simp add: createJob_no_project)
next
  case True
  show ?thesis
  proof (cases "\<forall>m. mid = Some m \<longrightarrow> m \<in> models s")
    case False
    then show ?thesis using assms True by (auto simp: createJob_no_model)
  next
    case model: True
  show ?thesis
  proof (cases "setRunning_throws env")
    case None
    show ?thesis unfolding createJob_ok [OF True None model] snd_conv
      by (rule inv_started [OF assms]) simp_all
  next
    case (Some e)
    show ?thesis
    proof (cases "fallback_throws env")
      case None
      show ?thesis unfolding createJob_start_fails [OF True Some None model] snd_conv
        by (rule inv_insert [OF assms]) simp
    next
      case (Some e')
      have "inv (s\<lparr>jobs := (jobs s)(lastJobId s + 1 \<mapsto>
                       \<lparr>project_id = pid, model_id = mid, job_type = ty, status = Queued,
                        progress = Fin 0, metrics_json = [], error = None\<rparr>),
             lastJobId := lastJobId s + 1\<rparr>)"
        by (rule inv_insert [OF assms]) simp
      then show ?thesis
        unfolding createJob_fallback_fails [OF True \<open>setRunning_throws env = Some e\<close> Some model] snd_conv
        by (auto dest: inv_crash [where x = "Some e'"])
    qed
  qed
  qed
qed

lemma cancelJob_missing:
  "jobs s jid = None \<Longrightarrow> cancelJob jid s = (Status404 ''Job not found'', s)"
  by (simp add: cancelJob_def)

lemma inv_cancelJob:
  assumes "inv s"
  shows "inv (snd (cancelJob jid s))"
proof (cases "jobs s jid")
  case None
  then show ?thesis using assms by (simp add: cancelJob_missing)
next
  case (Some job)
  let ?s = "s\<lparr>intervals := (case jobTimers s jid of None \<Rightarrow> intervals s
                            | Some timer \<Rightarrow> (intervals s)(intervalId timer := None)),
             jobTimers := (jobTimers s)(jid := None),
             jobs := (jobs s)(jid \<mapsto> job\<lparr>status := Canceled\<rparr>)\<rparr>"
  have "inv ?s"
  proof (rule invI)
    fix i c assume c: "intervals ?s i = Some c"
    then have c': "intervals s i = Some c" by (auto split: option.splits if_splits)
    then have ok: "sim_ok s i c" using assms by (auto dest: inv_sim)
    have "jobId c \<noteq> jid"
    proof
      assume "jobId c = jid"
      then have "jobTimers s jid = Some \<lparr>intervalId = i, startTime = startTime c\<rparr>"
        using ok by (simp add: sim_ok_def)
      then show False using c by simp
    qed
    then show "sim_ok ?s i c" using ok by (simp add: sim_ok_def)
  next
    fix j r assume "jobs ?s j = Some r"
    then show "j \<le> lastJobId ?s \<and> stored_ok (metrics_json r)"
      using inv_row [OF assms] Some by (auto split: if_splits)
  next
    fix j h assume "jobTimers ?s j = Some h"
    then have j: "j \<noteq> jid" "jobTimers s j = Some h" by (auto split: if_splits)
    then obtain c where c: "intervals s (intervalId h) = Some c" "jobId c = j"
      using inv_reg [OF assms] by blast
    have "intervals ?s (intervalId h) = Some c"
    proof (cases "jobTimers s jid")
      case None
      then show ?thesis using c by simp
    next
      case (Some t)
      then obtain ct where "intervals s (intervalId t) = Some ct" "jobId ct = jid"
        using inv_reg [OF assms] by blast
      then have "intervalId t \<noteq> intervalId h" using c j(1) by auto
      then show ?thesis using Some c by simp
    qed
    then show "\<exists>c. intervals ?s (intervalId h) = Some c \<and> jobId c = j" using c by blast
  qed
  then show ?thesis by (simp add: cancelJob_row [OF Some])
qed

lemma inv_projects: "inv s \<Longrightarrow> inv (s\<lparr>projects := ps\<rparr>)"
  by (simp add: inv_def sim_ok_def)

lemma inv_models: "inv s \<Longrightarrow> inv (s\<lparr>models := ms\<rparr>)"
  by (simp add: inv_def sim_ok_def)

lemma inv_exec: "inv s \<Longrightarrow> inv (exec ev s)"
  by (cases ev)
    (auto simp: inv_createJob inv_cancelJob inv_tick inv_projects inv_models split: option.splits)

lemma inv_run: "inv s \<Longrightarrow> inv (run evs s)"
  by (induction evs arbitrary: s) (simp_all add: inv_exec del: exec.simps)

lemma inv_reachable: "inv (run evs (init ps))"
  by (rule inv_run [OF inv_init])

subsection \<open>What an event leaves alone\<close>

lemma tick_intervals_other: "i \<noteq> intervalId c \<Longrightarrow> intervals (tick env c s) i = intervals s i"
  by (auto simp: tick_alt Let_def split: option.splits)

lemma tick_intervals_self:
  "intervals (tick env c s) (intervalId c) = None
   \<or> intervals (tick env c s) (intervalId c) = Some (pushed env c)"
  by (auto simp: tick_alt Let_def split: option.splits)

lemma tick_jobs_other: "j \<noteq> jobId c \<Longrightarrow> jobs (tick env c s) j = jobs s j"
  by (auto simp: tick_alt Let_def split: option.splits)

lemma tick_jobs_self:
  assumes "jobs s (jobId c) = Some r"
  shows "\<exists>r'. jobs (tick env c s) (jobId c) = Some r'
              \<and> (r' = r \<or> metrics_json r' = toJson (metrics (pushed env c)))"
  using assms by (auto simp: tick_alt Let_def split: option.splits)

lemma tick_jobTimers_other: "j \<noteq> jobId c \<Longrightarrow> jobTimers (tick env c s) j = jobTimers s j"
  by (auto simp: tick_alt Let_def split: option.splits)

lemma tick_jobTimers_self:
  "jobTimers (tick env c s) (jobId c) = None
   \<or> jobTimers (tick env c s) (jobId c) = jobTimers s (jobId c)"
  by (auto simp: tick_alt Let_def split: option.splits)

lemma createJob_jobs_old:
  "j \<le> lastJobId s \<Longrightarrow> jobs (snd (createJob env pid mid ty cfg s)) j = jobs s j"
  by (auto simp: createJob_def runTrainingSimulation_def Let_def split: option.splits)

lemma createJob_intervals_old:
  "i \<le> lastIntervalId s \<Longrightarrow> intervals (snd (createJob env pid mid ty cfg s)) i = intervals s i"
  by (auto simp: createJob_def runTrainingSimulation_def Let_def split: option.splits)

lemma createJob_jobTimers_old:
  "j \<le> lastJobId s \<Longrightarrow> jobTimers (snd (createJob env pid mid ty cfg s)) j = jobTimers s j"
  by (auto simp: createJob_def runTrainingSimulation_def Let_def split: option.splits)

lemma cancelJob_jobs_other:
  "j \<noteq> jid \<Longrightarrow> jobs (snd (cancelJob jid s)) j = jobs s j"
  by (cases "jobs s jid") (simp_all add: cancelJob_missing cancelJob_row)

lemma cancelJob_jobTimers_other:
  "j \<noteq> jid \<Longrightarrow> jobTimers (snd (cancelJob jid s)) j = jobTimers s j"
  by (cases "jobs s jid") (simp_all add: cancelJob_missing cancelJob_row)

lemma cancelJob_intervals:
  "intervals (snd (cancelJob jid s)) i = None \<or> intervals (snd (cancelJob jid s)) i = intervals s i"
  by (cases "jobs s jid") (auto simp: cancelJob_missing cancelJob_row split: option.splits)

lemma grown_nth:
  assumes "grown c" and "k < length (metrics c)"
  shows "\<exists>e. metrics c ! k = sample e c (Suc k)"
proof -
  obtain c0 es where c0: "step c0 = 0" "metrics c0 = []" "c = advance es c0"
    using assms(1) by (auto simp: grown_def)
  have len: "length (metrics c) = length es" by (simp add: c0 metrics_advance)
  have "metrics c ! k = sample (es ! k) c0 (Suc k)"
    using assms(2) len by (simp add: c0 metrics_advance)
  also have "\<dots> = sample (es ! k) c (Suc k)" by (simp add: c0(3))
  finally show ?thesis by blast
qed

lemma grown_step: "grown c \<Longrightarrow> step c = length (metrics c)"
  by (auto simp: grown_def metrics_advance)

lemma stored_ok_nth:
  assumes "stored_ok js" and "k < length js"
  shows "\<exists>e c. js ! k = map (\<lambda>(k, v). (k, json_of_num v)) (sample e c (Suc k))"
proof -
  obtain c where c: "grown c" "js = toJson (metrics c)" using assms(1) by (auto simp: stored_ok_def)
  then have k: "k < length (metrics c)" using assms(2) by simp
  then obtain e where "metrics c ! k = sample e c (Suc k)" using grown_nth [OF c(1)] by blast
  then show ?thesis using k by (auto simp: c(2) toJson_nth)
qed

lemma sample_step: "map_of (sample e c n) ''step'' = Some (Fin (real n))"
  by (simp add: sample_def Let_def)

lemma sample_json_step:
  "map_of (map (\<lambda>(k, v). (k, json_of_num v)) (sample e c n)) ''step'' = Some (JNum (real n))"
  by (simp add: sample_def Let_def)

lemma buffer_grows:
  assumes "inv s" and "intervals s i = Some c"
  shows "intervals (exec ev s) i = None
         \<or> intervals (exec ev s) i = Some c
         \<or> (\<exists>env. intervals (exec ev s) i = Some (pushed env c))"
proof (cases "crashed s = None")
  case False
  then show ?thesis using assms(2) by simp
next
  case True
  have ok: "sim_ok s i c" using assms by (rule inv_sim)
  show ?thesis
  proof (cases ev)
    case (Create env pid mid ty cfg)
    have "i \<le> lastIntervalId s" using ok by (simp add: sim_ok_def)
    then show ?thesis using True Create assms(2) by (simp add: createJob_intervals_old)
  next
    case (Get jid)
    then show ?thesis using True assms(2) by simp
  next
    case (NewProject pid)
    then show ?thesis using True assms(2) by simp
  next
    case (List pid)
    then show ?thesis using True assms(2) by simp
  next
    case (NewModel pid mid)
    then show ?thesis using True assms(2) by simp
  next
    case (Cancel jid)
    then show ?thesis using True assms(2) cancelJob_intervals [of jid s i] by auto
  next
    case (Tick i' env)
    show ?thesis
    proof (cases "intervals s i'")
      case None
      then show ?thesis using True Tick assms(2) by simp
    next
      case (Some c')
      have i': "intervalId c' = i'" using inv_sim [OF assms(1) Some] by (simp add: sim_ok_def)
      show ?thesis
      proof (cases "i' = i")
        case same: True
        then have "c' = c" using Some assms(2) by simp
        then show ?thesis
          using True Tick Some tick_intervals_self [of env c s] i' same by auto
      next
        case False
        then show ?thesis
          using True Tick Some assms(2) tick_intervals_other [of i c' env s] i' by auto
      qed
    qed
  qed
qed

lemma stored_grows:
  assumes "inv s" and "jobs s j = Some r"
  shows "\<exists>r'. jobs (exec ev s) j = Some r' \<and> prefix (metrics_json r) (metrics_json r')"
proof (cases "crashed s = None")
  case False
  then show ?thesis using assms(2) by simp
next
  case True
  have j: "j \<le> lastJobId s" using inv_row [OF assms] by simp
  show ?thesis
  proof (cases ev)
    case (Create env pid mid ty cfg)
    then show ?thesis using True assms(2) j by (simp add: createJob_jobs_old)
  next
    case (Get jid)
    then show ?thesis using True assms(2) by simp
  next
    case (NewProject pid)
    then show ?thesis using True assms(2) by simp
  next
    case (List pid)
    then show ?thesis using True assms(2) by simp
  next
    case (NewModel pid mid)
    then show ?thesis using True assms(2) by simp
  next
    case (Cancel jid)
    show ?thesis
    proof (cases "jid = j")
      case same: True
      then show ?thesis using True Cancel assms(2) by (simp add: cancelJob_row)
    next
      case False
      then show ?thesis using True Cancel assms(2) by (simp add: cancelJob_jobs_other)
    qed
  next
    case (Tick i env)
    show ?thesis
    proof (cases "intervals s i")
      case None
      then show ?thesis using True Tick assms(2) by simp
    next
      case (Some c)
      have ok: "sim_ok s i c" using assms(1) Some by (rule inv_sim)
      show ?thesis
      proof (cases "jobId c = j")
        case same: True
        then have pre: "prefix (metrics_json r) (toJson (metrics c))"
          using ok assms(2) by (auto simp: sim_ok_def)
        obtain r' where r': "jobs (tick env c s) (jobId c) = Some r'"
          "r' = r \<or> metrics_json r' = toJson (metrics (pushed env c))"
          using tick_jobs_self [of s c r env] assms(2) same by auto
        have "prefix (metrics_json r) (metrics_json r')"
          using r'(2) pre by (auto simp: toJson_append)
        then show ?thesis using True Tick Some r'(1) same by auto
      next
        case False
        then show ?thesis
          using True Tick Some assms(2) tick_jobs_other [of j c env s] by auto
      qed
    qed
  qed
qed

subsection \<open>Runs to completion\<close>

lemma run_completes:
  assumes l: "live c s" and total: "totalSteps c = Fin t"
    and ne: "es \<noteq> []"
    and before: "real (step c + length es - 1) < t" and reach: "t \<le> real (step c + length es)"
    and q: "\<forall>x\<in>set es. quiet x"
  shows "intervals (run (map (Tick (intervalId c)) es) s) (intervalId c) = None
       \<and> jobTimers (run (map (Tick (intervalId c)) es) s) (jobId c) = None
       \<and> crashed (run (map (Tick (intervalId c)) es) s) = None
       \<and> (\<exists>r. jobs (run (map (Tick (intervalId c)) es) s) (jobId c)
                = Some (r\<lparr>status := Completed, progress := Fin 100,
                           metrics_json := toJson (metrics (advance es c))\<rparr>))"
proof -
  define es' where "es' = butlast es"
  define e where "e = last es"
  have split: "es = es' @ [e]" using ne by (simp add: es'_def e_def)
  have len: "length es = length es' + 1" by (simp add: split)
  define c' where "c' = advance es' c"
  define s' where "s' = run (map (Tick (intervalId c)) es') s"
  have "\<forall>x\<in>set es'. flush_throws x = None" using q split by (auto simp: quiet_def)
  moreover have "\<forall>k. step c < k \<and> k \<le> step c + length es' \<longrightarrow> \<not> finished (totalSteps c) k"
    using before by (auto simp: total len)
  moreover have "totalSteps c \<noteq> NaN" by (simp add: total)
  ultimately have l': "live c' s'" unfolding c'_def s'_def by (rule live_ticks [OF l])
  have ids: "intervalId c' = intervalId c" "jobId c' = jobId c" "totalSteps c' = Fin t"
    "step c' + 1 = step c + length es"
    by (simp_all add: c'_def total len)
  have fin: "finished (totalSteps c') (step c' + 1)" unfolding ids using reach by simp
  have qe: "quiet e" using q split by auto
  have "run (map (Tick (intervalId c)) es) s = exec (Tick (intervalId c') e) s'"
    by (simp add: split s'_def ids del: exec.simps)
  then have eq: "run (map (Tick (intervalId c)) es) s = tick e c' s'"
    using exec_live_tick [OF l'] by simp
  have all: "pushed e c' = advance es c" by (simp add: split c'_def advance_snoc)
  obtain r where r: "jobs s' (jobId c) = Some r" using l' by (auto simp: live_def ids)
  have cr: "crashed s' = None" using l' by (simp add: live_def)
  show ?thesis
    unfolding eq tick_final [OF fin qe] using r cr by (auto simp: ids all)
qed

subsection \<open>The example runs\<close>

lemma started_eq:
  "started = \<lparr>projects = {1}, models = {},
      jobs = [1 \<mapsto> \<lparr>project_id = 1, model_id = None, job_type = ''train'', status = Running,
                        progress = Fin 0, metrics_json = [], error = None\<rparr>],
      lastJobId = 1, intervals = [1 \<mapsto> sim0], lastIntervalId = 1,
      jobTimers = [1 \<mapsto> \<lparr>intervalId = 1, startTime = 0\<rparr>], crashed = None\<rparr>"
proof -
  have "1 \<in> projects (init {1})" "setRunning_throws env0 = None"
    "\<forall>m. None = Some m \<longrightarrow> m \<in> models (init {1})"
    by (simp_all add: init_def env0_def)
  from createJob_ok [OF this] show ?thesis
    by (simp add: started_def init_def sim0_def env0_def)
qed

lemma sim0_simps [simp]:
  "intervalId sim0 = 1" "startTime sim0 = 0" "jobId sim0 = 1" "totalSteps sim0 = Fin 100"
  "step sim0 = 0" "metrics sim0 = []"
  by (simp_all add: sim0_def cfg0_def totalSteps_default env0_def)

lemma live_started: "live sim0 started"
  by (simp add: live_def started_eq)

lemma progress_1_100: "progress_of (Suc 0) (Fin 100) = Fin 1"
  by (simp add: progress_of_def js_min_def fl_eval)

lemma progress_2_100: "progress_of (Suc (Suc 0)) (Fin 100) = Fin 2"
  by (simp add: progress_of_def js_min_def fl_eval)

lemma one_tick_eq: "one_tick = started\<lparr>intervals := [1 \<mapsto> advance [tick0] sim0]\<rparr>"
proof -
  have f: "flush_throws tick0 = None" by (simp add: tick0_def)
  have n: "\<not> finished (totalSteps sim0) (step sim0 + 1)" by simp
  have t: "totalSteps sim0 \<noteq> NaN" by simp
  have "exec (Tick 1 tick0) started = tick tick0 sim0 started"
    using exec_live_tick [OF live_started] by (simp del: exec.simps)
  then have e: "one_tick = tick tick0 sim0 started"
    by (simp add: one_tick_def del: exec.simps)
  show ?thesis
    unfolding e tick_continue [OF n f t]
    by (simp add: progress_1_100 started_eq fun_eq_iff)
qed

lemma live_one_tick: "live (advance [tick0] sim0) one_tick"
  by (simp add: live_def one_tick_eq started_eq)

lemma one_tick_reachable:
  "one_tick = run [Create env0 1 None ''train'' cfg0, Tick 1 tick0] (init {1})"
  by (simp add: one_tick_def started_def del: exec.simps)

lemma two_ticks_eq:
  "two_ticks = started
     \<lparr>intervals := [1 \<mapsto> advance [tick0, tick0] sim0],
      jobs := [1 \<mapsto> \<lparr>project_id = 1, model_id = None, job_type = ''train'', status = Running,
                        progress = Fin 2,
                        metrics_json = toJson [sample tick0 sim0 1, sample tick0 sim0 2],
                        error = None\<rparr>]\<rparr>"
proof -
  have f: "flush_throws tick0 = None" by (simp add: tick0_def)
  have n: "\<not> finished (totalSteps (advance [tick0] sim0)) (step (advance [tick0] sim0) + 1)"
    by simp
  have t: "totalSteps (advance [tick0] sim0) \<noteq> NaN" by simp
  have "two_ticks = exec (Tick 1 tick0) one_tick"
    by (simp add: two_ticks_def one_tick_def del: exec.simps)
  also have "\<dots> = tick tick0 (advance [tick0] sim0) one_tick"
    using exec_live_tick [OF live_one_tick] by (simp del: exec.simps)
  finally have e: "two_ticks = tick tick0 (advance [tick0] sim0) one_tick" .
  show ?thesis
    unfolding e tick_continue [OF n f t]
    by (simp add: progress_2_100 one_tick_eq started_eq fun_eq_iff numeral_2_eq_2)
qed

lemma two_ticks_reachable:
  "two_ticks = run [Create env0 1 None ''train'' cfg0, Tick 1 tick0, Tick 1 tick0] (init {1})"
  by (simp add: two_ticks_def started_def del: exec.simps)

lemma completed_row:
  "\<exists>r. jobs completed 1 = Some (r\<lparr>status := Completed, progress := Fin 100,
         metrics_json := toJson (metrics (advance (replicate 100 tick0) sim0))\<rparr>)"
proof -
  have "replicate 100 tick0 \<noteq> []" by simp
  moreover have "real (step sim0 + length (replicate 100 tick0) - 1) < 100" by simp
  moreover have "100 \<le> real (step sim0 + length (replicate 100 tick0))" by simp
  moreover have "\<forall>x\<in>set (replicate 100 tick0). quiet x" by (simp add: quiet_def tick0_def)
  ultimately show ?thesis
    using run_completes [OF live_started, of 100 "replicate 100 tick0"]
    by (simp add: completed_def)
qed

lemma completed_reachable:
  "completed = run (Create env0 1 None ''train'' cfg0 # map (Tick 1) (replicate 100 tick0)) (init {1})"
  by (simp add: completed_def started_def del: exec.simps)

subsection \<open>Samples\<close>



subsection \<open>Jobs without a timer\<close>

lemma unchanged_without_timer:
  assumes "inv s" and "jobTimers s j = None" and "jobs s j = Some r" and "ev \<noteq> Cancel j"
  shows "jobs (exec ev s) j = Some r \<and> jobTimers (exec ev s) j = None"
proof (cases "crashed s = None")
  case False
  then show ?thesis using assms by simp
next
  case True
  have j: "j \<le> lastJobId s" using inv_row [OF assms(1,3)] by simp
  show ?thesis
  proof (cases ev)
    case (Create env pid mid ty cfg)
    then show ?thesis using True assms j by (simp add: createJob_jobs_old createJob_jobTimers_old)
  next
    case (Get jid)
    then show ?thesis using True assms by simp
  next
    case (NewProject pid)
    then show ?thesis using True assms by simp
  next
    case (List pid)
    then show ?thesis using True assms by simp
  next
    case (NewModel pid mid)
    then show ?thesis using True assms by simp
  next
    case (Cancel jid)
    then have "jid \<noteq> j" using assms(4) by simp
    then show ?thesis
      using True Cancel assms by (simp add: cancelJob_jobs_other cancelJob_jobTimers_other)
  next
    case (Tick i env)
    show ?thesis
    proof (cases "intervals s i")
      case None
      then show ?thesis using True Tick assms by simp
    next
      case (Some c)
      have "jobId c \<noteq> j" using no_timer_no_sim [OF assms(1,2) Some] .
      then show ?thesis
        using True Tick Some assms tick_jobs_other [of j c env s] tick_jobTimers_other [of j c env s]
        by auto
    qed
  qed
qed

lemma cancel_same_status: "status r = Canceled \<Longrightarrow> r\<lparr>status := Canceled\<rparr> = r"
  by (cases r) simp

lemma canceled_stays:
  assumes "inv s" and "jobTimers s j = None" and "jobs s j = Some r" and "status r = Canceled"
  shows "jobs (exec ev s) j = Some r \<and> jobTimers (exec ev s) j = None"
proof (cases "ev = Cancel j")
  case False
  then show ?thesis by (rule unchanged_without_timer [OF assms(1-3)])
next
  case True
  show ?thesis
    using assms(2,3) cancel_same_status [OF assms(4)]
    by (cases "crashed s = None") (simp_all add: True cancelJob_row [OF assms(3)])
qed

lemma canceled_forever:
  assumes "inv s" and "jobTimers s j = None" and "jobs s j = Some r" and "status r = Canceled"
  shows "jobs (run evs s) j = Some r"
  using assms
proof (induction evs arbitrary: s)
  case Nil
  then show ?case by simp
next
  case (Cons ev evs)
  have "inv (exec ev s)" using Cons.prems(1) by (rule inv_exec)
  moreover have "jobs (exec ev s) j = Some r \<and> jobTimers (exec ev s) j = None"
    using Cons.prems by (rule canceled_stays)
  ultimately have "jobs (run evs (exec ev s)) j = Some r"
    using Cons.IH Cons.prems(4) by blast
  then show ?case by (simp del: exec.simps)
qed

subsection \<open>A total that is not a number\<close>

lemma finished_NaN [simp]: "finished NaN k = False"
  by (simp add: finished_def js_ge_def)

lemma nan_tick_stuck:
  assumes "map_option status (jobs s j) = Some Running"
    and "\<forall>c. intervals s i = Some c \<longrightarrow> jobId c = j \<and> intervalId c = i \<and> totalSteps c = NaN"
  shows "map_option status (jobs (exec (Tick i e) s) j) = Some Running
       \<and> (\<forall>c. intervals (exec (Tick i e) s) i = Some c
              \<longrightarrow> jobId c = j \<and> intervalId c = i \<and> totalSteps c = NaN)"
proof (cases "crashed s = None \<and> intervals s i \<noteq> None")
  case False
  then show ?thesis using assms by auto
next
  case True
  then obtain c where c: "intervals s i = Some c" by auto
  then have ids: "jobId c = j" "intervalId c = i" "totalSteps c = NaN" using assms(2) by auto
  have "exec (Tick i e) s = tick e c s" using True c by simp
  moreover have "map_option status (jobs (tick e c s) j) = Some Running"
    using assms(1) ids by (auto simp: tick_alt Let_def)
  moreover have "intervals (tick e c s) i = Some (pushed e c)"
    using ids by (auto simp: tick_alt Let_def)
  ultimately show ?thesis using ids by simp
qed

lemma nan_run_stuck:
  assumes "map_option status (jobs s j) = Some Running"
    and "\<forall>c. intervals s i = Some c \<longrightarrow> jobId c = j \<and> intervalId c = i \<and> totalSteps c = NaN"
  shows "map_option status (jobs (run (map (Tick i) es) s) j) = Some Running"
  using assms
proof (induction es arbitrary: s)
  case Nil
  then show ?case by simp
next
  case (Cons e es)
  show ?case
    using Cons.IH [of "exec (Tick i e) s"] nan_tick_stuck [OF Cons.prems, of e]
    by (simp del: exec.simps)
qed

lemma tick_nan_odd:
  assumes "totalSteps c = NaN" and "(step c + 1) mod 2 \<noteq> 0"
  shows "tick env c s = s\<lparr>intervals := (intervals s)(intervalId c \<mapsto> pushed env c)\<rparr>"
  using assms by (simp add: tick_alt Let_def)

lemma tick_nan_even:
  assumes "totalSteps c = NaN" and "(step c + 1) mod 2 = 0" and "jobs s (jobId c) = Some r"
    and "flush_throws env = None"
  shows "tick env c s = s\<lparr>intervals := (intervals s)(intervalId c \<mapsto> pushed env c),
                          crashed := Some not_null_error\<rparr>"
  using assms by (simp add: tick_alt Let_def)

subsection \<open>Finite results of the arithmetic\<close>

lemma halvings_le: "x < 2 ^ Suc m \<Longrightarrow> halvings n x \<le> m"
proof (induction n arbitrary: x m)
  case 0
  then show ?case by simp
next
  case (Suc n)
  show ?case
  proof (cases "2 \<le> x")
    case False
    then show ?thesis by simp
  next
    case True
    then have "m \<noteq> 0" using Suc.prems by (cases m) auto
    then obtain m' where m: "m = Suc m'" by (cases m) auto
    have "x / 2 < 2 ^ Suc m'" using Suc.prems by (simp add: m)
    then have "halvings n (x / 2) \<le> m'" by (rule Suc.IH)
    then show ?thesis using True by (simp add: m)
  qed
qed

lemma binexp_le_52: "0 < x \<Longrightarrow> x < 2 ^ 53 \<Longrightarrow> binexp x \<le> 52"
proof -
  assume "0 < x" "x < 2 ^ 53"
  then have "x < 2 ^ Suc 52" by simp
  then have "halvings 1024 x \<le> 52" by (rule halvings_le)
  then show ?thesis by (simp add: binexp_def del: halvings_numeral)
qed

lemma pow2_le_1: "k \<le> 0 \<Longrightarrow> pow2 k \<le> 1"
  by (auto simp: pow2_def field_simps)

lemma fl_fin:
  assumes "0 \<le> x" and "x < 2 ^ 53"
  shows "\<exists>y. 0 \<le> y \<and> y \<le> x + 1 / 2 \<and> fl x = Fin y"
proof (cases "x = 0")
  case True
  then show ?thesis by (simp add: fl_def)
next
  case False
  then have pos: "0 < x" using assms by simp
  define u where "u = pow2 (binexp x - 52)"
  have u0: "0 < u" by (simp add: u_def)
  have "binexp x - 52 \<le> 0" using binexp_le_52 [OF pos assms(2)] by simp
  then have u1: "u \<le> 1" unfolding u_def by (rule pow2_le_1)
  define r where "r = real_of_int (rne (x / u)) * u"
  have "real_of_int (rne (x / u)) \<le> x / u + 1 / 2" by (rule rne_upper)
  then have "r \<le> (x / u + 1 / 2) * u" unfolding r_def using u0 by (simp add: mult_right_mono)
  also have "\<dots> = x + u / 2" using u0 by (simp add: field_simps)
  finally have r1: "r \<le> x + 1 / 2" using u1 by simp
  have "0 \<le> x / u" using pos u0 by simp
  then have "0 \<le> rne (x / u)" by (rule rne_nonneg)
  then have r0: "0 \<le> r" unfolding r_def using u0 by simp
  have "r < 2 ^ 54" using r1 assms(2) by simp
  also have "(2::real) ^ 54 \<le> 2 ^ 1024" by (rule power_increasing) simp_all
  finally have "fl_pos x = Fin r" by (simp add: fl_pos_def Let_def u_def r_def)
  then show ?thesis using pos r0 r1 by (auto simp: fl_def)
qed

lemma fl_neg: "fl (- x) = js_neg (fl x)"
proof -
  have "js_neg (js_neg v) = v" for v by (cases v) simp_all
  then show ?thesis by (simp add: fl_def)
qed

lemma fl_fin_abs:
  assumes "\<bar>x\<bar> < 2 ^ 53"
  shows "\<exists>y. fl x = Fin y \<and> \<bar>y\<bar> \<le> \<bar>x\<bar> + 1 / 2 \<and> (0 \<le> x \<longrightarrow> 0 \<le> y) \<and> (x \<le> 0 \<longrightarrow> y \<le> 0)"
proof (cases "0 \<le> x")
  case True
  then obtain y where "0 \<le> y" "y \<le> x + 1 / 2" "fl x = Fin y"
    using fl_fin [of x] assms by auto
  moreover have "y \<le> 0" if "x \<le> 0"
  proof -
    have "x = 0" using that True by simp
    then show ?thesis using \<open>fl x = Fin y\<close> by (simp add: fl_def)
  qed
  ultimately show ?thesis using True by auto
next
  case False
  then have "0 \<le> - x" "- x < 2 ^ 53" using assms by simp_all
  then obtain y where y: "0 \<le> y" "y \<le> - x + 1 / 2" "fl (- x) = Fin y"
    using fl_fin [of "- x"] by auto
  have "fl x = js_neg (fl (- x))" using fl_neg [of "- x"] by simp
  then have "fl x = Fin (- y)" using y(3) by simp
  then show ?thesis using y(1,2) False by auto
qed

lemma pow2_le: "k \<le> - int m \<Longrightarrow> pow2 k \<le> 1 / 2 ^ m"
proof -
  assume k: "k \<le> - int m"
  then have "m \<le> nat (- k)" by simp
  then have "(2::real) ^ m \<le> 2 ^ nat (- k)" by (intro power_increasing) simp_all
  then have "1 / (2::real) ^ nat (- k) \<le> 1 / 2 ^ m" by (intro frac_le) simp_all
  moreover have "pow2 k = 1 / 2 ^ nat (- k)" using k by (cases "k = 0") (simp_all add: pow2_def)
  ultimately show ?thesis by simp
qed

lemma fl_err_pos:
  assumes "0 \<le> x" and "x < 2"
  shows "\<exists>y. fl x = Fin y \<and> 0 \<le> y \<and> \<bar>y - x\<bar> \<le> 1 / 2 ^ 53"
proof (cases "x = 0")
  case True
  then show ?thesis by (simp add: fl_def)
next
  case False
  then have pos: "0 < x" using assms by simp
  define u where "u = pow2 (binexp x - 52)"
  have u0: "0 < u" by (simp add: u_def)
  have "binexp x \<le> 0" using pos assms(2) by (simp add: binexp_def)
  then have "binexp x - 52 \<le> - int 52" by simp
  then have u1: "u \<le> 1 / 2 ^ 52" unfolding u_def by (rule pow2_le)
  define r where "r = real_of_int (rne (x / u)) * u"
  have up: "real_of_int (rne (x / u)) \<le> x / u + 1 / 2" by (rule rne_upper)
  have lo: "x / u - 1 / 2 \<le> real_of_int (rne (x / u))" by (rule rne_lower)
  have "r \<le> (x / u + 1 / 2) * u" unfolding r_def using u0 up by (simp add: mult_right_mono)
  also have "\<dots> = x + u / 2" using u0 by (simp add: field_simps)
  finally have r1: "r \<le> x + u / 2" .
  have "(x / u - 1 / 2) * u \<le> r" unfolding r_def using u0 lo by (simp add: mult_right_mono)
  moreover have "(x / u - 1 / 2) * u = x - u / 2" using u0 by (simp add: field_simps)
  ultimately have r2: "x - u / 2 \<le> r" by simp
  have "0 \<le> x / u" using pos u0 by simp
  then have "0 \<le> rne (x / u)" by (rule rne_nonneg)
  then have r0: "0 \<le> r" unfolding r_def using u0 by simp
  have "r < 2 ^ 54" using r1 u1 assms(2) by simp
  also have "(2::real) ^ 54 \<le> 2 ^ 1024" by (rule power_increasing) simp_all
  finally have "fl_pos x = Fin r" by (simp add: fl_pos_def Let_def u_def r_def)
  moreover have "\<bar>r - x\<bar> \<le> 1 / 2 ^ 53"
  proof -
    have "u / 2 \<le> 1 / 2 ^ 53" using u1 by simp
    moreover have "\<bar>r - x\<bar> \<le> u / 2" using r1 r2 by linarith
    ultimately show ?thesis by linarith
  qed
  ultimately show ?thesis using pos r0 by (auto simp: fl_def)
qed

lemma fl_err:
  assumes "\<bar>x\<bar> < 2"
  shows "\<exists>y. fl x = Fin y \<and> \<bar>y - x\<bar> \<le> 1 / 2 ^ 53 \<and> (0 \<le> x \<longrightarrow> 0 \<le> y) \<and> (x \<le> 0 \<longrightarrow> y \<le> 0)"
proof (cases "0 \<le> x")
  case True
  then obtain y where y: "fl x = Fin y" "0 \<le> y" "\<bar>y - x\<bar> \<le> 1 / 2 ^ 53"
    using fl_err_pos [of x] assms by auto
  moreover have "y \<le> 0" if "x \<le> 0"
  proof -
    have "x = 0" using that True by simp
    then show ?thesis using y(1) by (simp add: fl_def)
  qed
  ultimately show ?thesis by auto
next
  case False
  then have "0 \<le> - x" "- x < 2" using assms by simp_all
  then obtain y where y: "fl (- x) = Fin y" "0 \<le> y" "\<bar>y - (- x)\<bar> \<le> 1 / 2 ^ 53"
    using fl_err_pos [of "- x"] by auto
  have "fl x = js_neg (fl (- x))" using fl_neg [of "- x"] by simp
  then have "fl x = Fin (- y)" using y(1) by simp
  moreover have "\<bar>- y - x\<bar> = \<bar>y - (- x)\<bar>" by linarith
  ultimately show ?thesis using y(2,3) False by auto
qed

lemma fl_1_2:
  assumes "1 \<le> x" and "x < 2"
  shows "fl x = Fin (of_int (rne (x * 2 ^ 52)) / 2 ^ 52)"
proof -
  have e: "binexp x = 0" using assms by (simp add: binexp_def)
  have "real_of_int (rne (x * 2 ^ 52)) \<le> x * 2 ^ 52 + 1 / 2" by (rule rne_upper)
  also have "\<dots> < 3 * 2 ^ 52" using assms by simp
  finally have "real_of_int (rne (x * 2 ^ 52)) / 2 ^ 52 < 3" by (simp add: field_simps)
  then have "\<not> 2 ^ 1024 \<le> real_of_int (rne (x * 2 ^ 52)) / 2 ^ 52" by simp
  then show ?thesis using assms by (simp add: fl_def fl_pos_def e pow2_def)
qed

lemma scale_52: "2 ^ 52 \<le> m \<Longrightarrow> 1 \<le> m / 2 ^ 52" for m :: real
  by (simp add: field_simps)

lemma scale_46_100: "100 * 2 ^ 46 \<le> m \<Longrightarrow> 100 \<le> m / 2 ^ 46" for m :: real
  by (simp add: field_simps)

lemma progress_at_end:
  assumes "20 \<le> t" and "t \<le> real k" and "real k < t + 1"
  shows "progress_of k (Fin t) = Fin 100"
proof -
  define x where "x = real k / t"
  have t0: "0 < t" using assms(1) by simp
  have x1: "1 \<le> x" using assms t0 by (simp add: x_def)
  have "real k < t * (21 / 20)" using assms by simp
  then have x2: "x < 21 / 20" using t0 by (simp add: x_def field_simps)
  then have x3: "x < 2" by simp
  define d where "d = real_of_int (rne (x * 2 ^ 52)) / 2 ^ 52"
  have fx: "fl x = Fin d" unfolding d_def by (rule fl_1_2 [OF x1 x3])
  have "of_int (2 ^ 52) - 1 / 2 < x * 2 ^ 52" using x1 by simp
  then have "real_of_int (2 ^ 52) \<le> real_of_int (rne (x * 2 ^ 52))" by (rule rne_ge_real)
  then have "2 ^ 52 \<le> real_of_int (rne (x * 2 ^ 52))" by simp
  then have d1: "1 \<le> d" unfolding d_def by (rule scale_52)
  have "real_of_int (rne (x * 2 ^ 52)) \<le> x * 2 ^ 52 + 1 / 2" by (rule rne_upper)
  then have "d \<le> x + 1 / 2 ^ 53" unfolding d_def by (simp add: field_simps)
  then have d2: "d < 11 / 10" using x2 by simp
  have z1: "64 \<le> d * 100" using d1 by simp
  have z2: "d * 100 < 128" using d2 by simp
  define v where "v = real_of_int (rne (d * 100 * 2 ^ 46)) / 2 ^ 46"
  have fz: "fl (d * 100) = Fin v" unfolding v_def by (rule fl_64_128 [OF z1 z2])
  have "of_int (100 * 2 ^ 46) - 1 / 2 < d * 100 * 2 ^ 46" using d1 by simp
  then have "real_of_int (100 * 2 ^ 46) \<le> real_of_int (rne (d * 100 * 2 ^ 46))"
    by (rule rne_ge_real)
  then have "100 * 2 ^ 46 \<le> real_of_int (rne (d * 100 * 2 ^ 46))" by simp
  then have v1: "100 \<le> v" unfolding v_def by (rule scale_46_100)
  define n where "n = \<lfloor>v + 1 / 2\<rfloor>"
  have "100 \<le> n" unfolding n_def using v1 by linarith
  then have "js_min (Fin (real_of_int n)) (Fin 100) = Fin 100"
    by (cases "n = 100") (auto simp: js_min_def)
  then have m: "js_min (Fin (real_of_int \<lfloor>v + 1 / 2\<rfloor>)) (Fin 100) = Fin 100"
    by (simp add: n_def)
  have q: "js_div (Fin (real k)) (Fin t) = Fin d"
    using t0 fx by (simp add: x_def)
  show ?thesis unfolding progress_of_def q using fz m by simp
qed

subsection \<open>Totals, quotients and progress\<close>

lemma total_ok_totalSteps: "total_ok (totalSteps_of cfg)"
proof -
  have "total_ok (js_max a (Fin 20))" for a
    by (cases a) (auto simp: total_ok_def js_max_def)
  then show ?thesis by (simp add: totalSteps_of_def Let_def)
qed

lemma total_ok_cases:
  assumes "total_ok n" and "n \<noteq> NaN"
  obtains t where "n = Fin t" "20 \<le> t" | "n = PosInf"
  using assms by (cases n) (auto simp: total_ok_def)

lemma not_finished_0: "total_ok n \<Longrightarrow> \<not> finished n 0"
  by (cases n) (auto simp: total_ok_def finished_def js_ge_def)

lemma finished_mono: "finished n k \<Longrightarrow> k \<le> k' \<Longrightarrow> finished n k'"
  by (cases n) (auto simp: finished_def js_ge_def)

lemma finished_PosInf [simp]: "finished PosInf k = False"
  by (simp add: finished_def js_ge_def)

lemma finished_not_NaN: "finished n k \<Longrightarrow> n \<noteq> NaN"
  by auto

lemma quotient_fin:
  assumes "total_ok n" and "n \<noteq> NaN" and "\<not> finished n k"
  shows "\<exists>t. 0 \<le> t \<and> t \<le> 3 \<and> js_div (Fin (real (Suc k))) n = Fin t"
  using assms(1,2)
proof (cases rule: total_ok_cases)
  case (1 t)
  have t0: "0 < t" using 1(2) by simp
  have "real k < t" using assms(3) 1(1) by simp
  then have "real (Suc k) < t * 2" using 1(2) by simp
  then have "real (Suc k) / t < 2" using t0 by (simp add: field_simps)
  moreover have "0 \<le> real (Suc k) / t" using t0 by simp
  moreover have "(2::real) < 2 ^ 53" by simp
  ultimately obtain y where "0 \<le> y" "y \<le> real (Suc k) / t + 1 / 2" "fl (real (Suc k) / t) = Fin y"
    using fl_fin [of "real (Suc k) / t"] by fastforce
  then show ?thesis using 1(1) t0 \<open>real (Suc k) / t < 2\<close> by auto
next
  case 2
  then show ?thesis by simp
qed

lemma scaled_fin:
  assumes "total_ok n" and "n \<noteq> NaN" and "\<not> finished n k"
  shows "\<exists>x. 0 \<le> x \<and> js_mul (js_div (Fin (real (Suc k))) n) (Fin 100) = Fin x"
proof -
  obtain t where t: "0 \<le> t" "t \<le> 3" "js_div (Fin (real (Suc k))) n = Fin t"
    using quotient_fin [OF assms] by blast
  have "0 \<le> t * 100" "t * 100 < 2 ^ 53" using t by simp_all
  then obtain x where "0 \<le> x" "fl (t * 100) = Fin x" using fl_fin by blast
  then show ?thesis using t(3) by auto
qed

lemma progress_exact:
  assumes "js_mul (js_div (Fin (real st)) n) (Fin 100) = Fin x"
  shows "progress_of st n = Fin (of_int (min \<lfloor>x + 1 / 2\<rfloor> 100))"
    and "spec_progress st n = Fin (of_int (min \<lfloor>x\<rfloor> 100))"
  using assms by (simp_all add: progress_of_def spec_progress_def js_min_def min_def)

lemma round_vs_floor:
  "min \<lfloor>x + 1 / 2\<rfloor> 100 = min \<lfloor>x\<rfloor> (100::int) \<longleftrightarrow> x - of_int \<lfloor>x\<rfloor> < 1 / 2 \<or> 100 \<le> x"
  for x :: real
proof (cases "100 \<le> x")
  case True
  then have "100 \<le> \<lfloor>x\<rfloor>" "100 \<le> \<lfloor>x + 1 / 2\<rfloor>" by linarith+
  then show ?thesis using True by simp
next
  case False
  then have "\<lfloor>x\<rfloor> \<le> 99" by linarith
  moreover have "\<lfloor>x + 1 / 2\<rfloor> \<le> \<lfloor>x\<rfloor> + 1" by linarith
  ultimately have "min \<lfloor>x + 1 / 2\<rfloor> 100 = \<lfloor>x + 1 / 2\<rfloor>" "min \<lfloor>x\<rfloor> 100 = \<lfloor>x\<rfloor>" by simp_all
  moreover have "(\<lfloor>x + 1 / 2\<rfloor> = \<lfloor>x\<rfloor>) = (x - of_int \<lfloor>x\<rfloor> < 1 / 2)"
  proof
    assume "\<lfloor>x + 1 / 2\<rfloor> = \<lfloor>x\<rfloor>" then show "x - of_int \<lfloor>x\<rfloor> < 1 / 2" by linarith
  next
    assume "x - of_int \<lfloor>x\<rfloor> < 1 / 2" then show "\<lfloor>x + 1 / 2\<rfloor> = \<lfloor>x\<rfloor>" by linarith
  qed
  ultimately show ?thesis using False by simp
qed

lemma progress_range:
  assumes "total_ok n" and "n \<noteq> NaN"
  shows "\<exists>k::nat. k \<le> 100 \<and> progress_of st n = Fin (real k)"
  using assms
proof (cases rule: total_ok_cases)
  case (1 t)
  have t0: "0 < t" using 1(2) by simp
  from scaled_cases [OF t0, of st] show ?thesis
  proof (elim disjE exE conjE)
    assume "js_mul (js_div (Fin (real st)) (Fin t)) (Fin 100) = PosInf"
    then have "progress_of st (Fin t) = Fin (real 100)"
      by (simp add: progress_of_def js_min_def)
    then show ?thesis unfolding 1(1) by (intro exI [of _ 100]) simp
  next
    fix x assume x: "0 \<le> x" "js_mul (js_div (Fin (real st)) (Fin t)) (Fin 100) = Fin x"
    define m where "m = min \<lfloor>x + 1 / 2\<rfloor> 100"
    have m0: "0 \<le> m" "m \<le> 100" using x(1) by (simp_all add: m_def)
    have "progress_of st (Fin t) = Fin (of_int m)" using progress_exact(1) [OF x(2)] by (simp add: m_def)
    also have "of_int m = real (nat m)" using m0 by simp
    finally show ?thesis unfolding 1(1) using m0 by (intro exI [of _ "nat m"]) simp
  qed
next
  case 2
  have "progress_of st PosInf = Fin (real 0)"
    by (simp add: progress_of_def js_min_def fl_def)
  then show ?thesis unfolding 2 by (intro exI [of _ 0]) simp
qed

lemma progress_when_finished:
  assumes "total_ok n" and "\<not> finished n k" and "finished n (k + 1)"
  shows "progress_of (k + 1) n = Fin 100"
proof -
  have "n \<noteq> NaN" using assms(3) by auto
  with assms(1) show ?thesis
  proof (cases rule: total_ok_cases)
    case (1 t)
    have "t \<le> real (k + 1)" "real (k + 1) < t + 1" using assms(2,3) 1(1) by simp_all
    then show ?thesis unfolding 1(1) by (intro progress_at_end 1(2))
  next
    case 2
    then show ?thesis using assms(3) by simp
  qed
qed

subsection \<open>The values of reachable states\<close>

lemma fl_bounded:
  assumes "\<bar>x\<bar> \<le> b" and "b < 2 ^ 52"
  shows "\<exists>y. fl x = Fin y \<and> \<bar>y\<bar> \<le> b + 1 / 2 \<and> (0 \<le> x \<longrightarrow> 0 \<le> y) \<and> (x \<le> 0 \<longrightarrow> y \<le> 0)"
proof -
  have "\<bar>x\<bar> < 2 ^ 53" using assms by simp
  then obtain y where "fl x = Fin y" "\<bar>y\<bar> \<le> \<bar>x\<bar> + 1 / 2" "0 \<le> x \<longrightarrow> 0 \<le> y" "x \<le> 0 \<longrightarrow> y \<le> 0"
    using fl_fin_abs by blast
  then show ?thesis using assms(1) by auto
qed

lemma toFixed4_abs: "\<bar>toFixed4 x\<bar> \<le> \<bar>x\<bar> + 1 / 20000"
proof (cases "x < 0")
  case True
  have "0 \<le> of_int \<lfloor>- x * 10000 + 1 / 2\<rfloor> / (10000::real)" using True by simp
  moreover have "of_int \<lfloor>- x * 10000 + 1 / 2\<rfloor> \<le> - x * 10000 + 1 / 2" by linarith
  then have "of_int \<lfloor>- x * 10000 + 1 / 2\<rfloor> / 10000 \<le> - x + 1 / 20000" by (simp add: field_simps)
  ultimately show ?thesis using True by (simp add: toFixed4_def)
next
  case False
  then have "0 \<le> x" by simp
  then have "0 \<le> toFixed4 x" by (simp add: toFixed4_def)
  then show ?thesis using toFixed4_bounds(2) [OF \<open>0 \<le> x\<close>] \<open>0 \<le> x\<close> by simp
qed

lemma js_toFixed4_fin:
  assumes "\<bar>x\<bar> \<le> 10"
  shows "\<exists>y. js_toFixed4 (Fin x) = Fin y"
proof -
  have "\<bar>toFixed4 x\<bar> \<le> 11" using toFixed4_abs [of x] assms by simp
  moreover have "(11::real) < 2 ^ 52" by simp
  ultimately obtain y where "fl (toFixed4 x) = Fin y" using fl_bounded by blast
  moreover have "\<not> 10 ^ 21 \<le> \<bar>x\<bar>" using assms by simp
  ultimately show ?thesis by simp
qed

lemma eps53: "(1 / 2 ^ 53 :: real) \<le> 1 / 1000000"
  by simp

lemma abs_diffD: "\<bar>y - x\<bar> \<le> e \<Longrightarrow> x - e \<le> y \<and> y \<le> x + e" for x y e :: real
  by linarith

lemma twentieth:
  "\<exists>c. fl (1 / 20) = Fin c \<and> 0 \<le> c \<and> 1 / 20 - 1 / 2 ^ 53 \<le> c \<and> c \<le> 1 / 20 + 1 / 2 ^ 53"
proof -
  have "\<bar>1 / 20 :: real\<bar> < 2" by simp
  then obtain c where c: "fl (1 / 20) = Fin c" "\<bar>c - 1 / 20\<bar> \<le> 1 / 2 ^ 53"
    "0 \<le> (1 / 20 :: real) \<longrightarrow> 0 \<le> c"
    using fl_err [of "1 / 20"] by blast
  have "1 / 20 - 1 / 2 ^ 53 \<le> c \<and> c \<le> 1 / 20 + 1 / 2 ^ 53" using c(2) by (rule abs_diffD)
  then show ?thesis using c(1,3) by auto
qed

lemma loss_of_Fin:
  assumes "0 \<le> t" and "t \<le> 3" and "0 \<le> r" and "r < 1"
  shows "\<exists>x. loss_of (Fin t) r = Fin x"
proof -
  have "\<bar>- 3 * t\<bar> \<le> 9" "(9::real) < 2 ^ 52" using assms by simp_all
  then obtain m where m: "fl (- 3 * t) = Fin m" "- 3 * t \<le> 0 \<longrightarrow> m \<le> 0"
    using fl_bounded [of "- 3 * t" 9] by blast
  have m0: "m \<le> 0" using m(2) assms(1) by simp
  have "\<bar>exp m\<bar> \<le> 1" "(1::real) < 2 ^ 52" using m0 by simp_all
  then obtain e where e: "fl (exp m) = Fin e" "\<bar>e\<bar> \<le> 1 + 1 / 2"
    using fl_bounded [of "exp m" 1] by blast
  have "\<bar>3 / 2 * e\<bar> \<le> 3" "(3::real) < 2 ^ 52" using e(2) by simp_all
  then obtain a where a: "fl (3 / 2 * e) = Fin a" "\<bar>a\<bar> \<le> 3 + 1 / 2"
    using fl_bounded [of "3 / 2 * e" 3] by blast
  obtain c where c: "fl (1 / 20) = Fin c" "0 \<le> c" "c \<le> 1 / 20 + 1 / 2 ^ 53"
    using twentieth by blast
  have c1: "c \<le> 1" using c(3) eps53 by linarith
  have "c * r \<le> 1 * 1" using c1 c(2) assms(3,4) by (intro mult_mono) simp_all
  moreover have "0 \<le> c * r" using c(2) assms(3) by simp
  ultimately have "\<bar>c * r\<bar> \<le> 1" by simp
  then obtain b where b: "fl (c * r) = Fin b" "\<bar>b\<bar> \<le> 1 + 1 / 2"
    using fl_bounded [of "c * r" 1] by auto
  have "\<bar>a + b\<bar> \<le> 5" "(5::real) < 2 ^ 52" using a(2) b(2) by simp_all
  then obtain v where v: "fl (a + b) = Fin v" "\<bar>v\<bar> \<le> 5 + 1 / 2"
    using fl_bounded [of "a + b" 5] by blast
  have "\<bar>v\<bar> \<le> 10" using v(2) by simp
  then obtain x where x: "js_toFixed4 (Fin v) = Fin x" using js_toFixed4_fin by blast
  have s1: "js_mul (Fin (- 3)) (Fin t) = Fin m" using m(1) by simp
  have s2: "js_exp (Fin m) = Fin e" using e(1) by simp
  have s3: "js_mul (Fin (3 / 2)) (Fin e) = Fin a" using a(1) by simp
  have s4: "js_mul (fl (1 / 20)) (Fin r) = Fin b" unfolding c(1) using b(1) by simp
  have s5: "js_add (Fin a) (Fin b) = Fin v" using v(1) by simp
  show ?thesis unfolding loss_of_def s1 s2 s3 s4 s5 using x by blast
qed

lemma accuracy_of_Fin:
  assumes "0 \<le> t" and "t \<le> 3" and "0 \<le> r" and "r < 1"
  shows "\<exists>y. accuracy_of (Fin t) r = Fin y"
proof -
  have "\<bar>1 / 2 * t\<bar> \<le> 2" "(2::real) < 2 ^ 52" using assms by simp_all
  then obtain c1 where c1: "fl (1 / 2 * t) = Fin c1" "\<bar>c1\<bar> \<le> 2 + 1 / 2"
    using fl_bounded [of "1 / 2 * t" 2] by blast
  have "\<bar>1 / 2 + c1\<bar> \<le> 3" "(3::real) < 2 ^ 52" using c1(2) by simp_all
  then obtain c2 where c2: "fl (1 / 2 + c1) = Fin c2" "\<bar>c2\<bar> \<le> 3 + 1 / 2"
    using fl_bounded [of "1 / 2 + c1" 3] by blast
  have "\<bar>r + - (1 / 2)\<bar> \<le> 1" "(1::real) < 2 ^ 52" using assms(3,4) by simp_all
  then obtain d1 where d1: "fl (r + - (1 / 2)) = Fin d1" "\<bar>d1\<bar> \<le> 1 + 1 / 2"
    using fl_bounded [of "r + - (1 / 2)" 1] by blast
  obtain c where c: "fl (1 / 20) = Fin c" "0 \<le> c" "c \<le> 1 / 20 + 1 / 2 ^ 53"
    using twentieth by blast
  have cb: "\<bar>c\<bar> \<le> 1" using c(2,3) eps53 by linarith
  have "\<bar>c * d1\<bar> = \<bar>c\<bar> * \<bar>d1\<bar>" by (rule abs_mult)
  also have "\<dots> \<le> 1 * 2" using cb d1(2) by (intro mult_mono) simp_all
  finally have "\<bar>c * d1\<bar> \<le> 2" by simp
  then obtain d2 where d2: "fl (c * d1) = Fin d2" "\<bar>d2\<bar> \<le> 2 + 1 / 2"
    using fl_bounded [of "c * d1" 2] by auto
  have "\<bar>c2 + d2\<bar> \<le> 6" "(6::real) < 2 ^ 52" using c2(2) d2(2) by simp_all
  then obtain v where v: "fl (c2 + d2) = Fin v" "\<bar>v\<bar> \<le> 6 + 1 / 2"
    using fl_bounded [of "c2 + d2" 6] by blast
  have "\<bar>v\<bar> \<le> 10" using v(2) by simp
  then obtain y where y: "js_toFixed4 (Fin v) = Fin y" using js_toFixed4_fin by blast
  have s1: "js_mul (Fin (1 / 2)) (Fin t) = Fin c1" using c1(1) by simp
  have s2: "js_add (Fin (1 / 2)) (Fin c1) = Fin c2" using c2(1) by simp
  have s3: "js_sub (Fin r) (Fin (1 / 2)) = Fin d1" using d1(1) by (simp add: js_sub_def)
  have s4: "js_mul (fl (1 / 20)) (Fin d1) = Fin d2" unfolding c(1) using d2(1) by simp
  have s5: "js_add (Fin c2) (Fin d2) = Fin v" using v(1) by simp
  show ?thesis unfolding accuracy_of_def s1 s2 s3 s4 s5 using y by blast
qed

lemma draw_bounds: "0 \<le> draw_value d" "draw_value d < 1"
  using draw_value [of d] by simp_all


lemma sample_stored:
  assumes "js_div (Fin (real (Suc k))) (totalSteps c) = Fin t" and "0 \<le> t" and "t \<le> 3"
  shows "stored_sample (map (\<lambda>(k, v). (k, json_of_num v)) (sample e c (Suc k)))"
proof -
  obtain x where x: "loss_of (Fin t) (draw_value (rand1 e)) = Fin x"
    using loss_of_Fin [OF assms(2,3) draw_bounds] by blast
  obtain y where y: "accuracy_of (Fin t) (draw_value (rand2 e)) = Fin y"
    using accuracy_of_Fin [OF assms(2,3) draw_bounds] by blast
  have "map (\<lambda>(k, v). (k, json_of_num v)) (sample e c (Suc k))
       = [(''step'', JNum (real (Suc k))), (''loss'', JNum x), (''accuracy'', JNum y),
          (''timeMs'', JNum (of_int (now e - startTime c)))]"
    unfolding sample_def Let_def assms(1) x y by simp
  moreover have "1 \<le> Suc k" by simp
  ultimately show ?thesis unfolding stored_sample_def
    by (intro exI [of _ "Suc k"] exI [of _ x] exI [of _ y] exI [of _ "now e - startTime c"] conjI)
qed

lemma samples_stored:
  assumes "grown c" and "total_ok (totalSteps c)" and "totalSteps c \<noteq> NaN"
    and "\<not> finished (totalSteps c) (step c)"
  shows "\<forall>m\<in>set (toJson (metrics (pushed env c))). stored_sample m"
proof
  fix m assume "m \<in> set (toJson (metrics (pushed env c)))"
  then obtain k where k: "k < length (metrics (pushed env c))"
    "m = toJson (metrics (pushed env c)) ! k"
    by (auto simp: in_set_conv_nth)
  have g: "grown (pushed env c)" using assms(1) by (rule grown_pushed)
  obtain e where e: "metrics (pushed env c) ! k = sample e (pushed env c) (Suc k)"
    using grown_nth [OF g k(1)] by blast
  have "step (pushed env c) = length (metrics (pushed env c))" using g by (rule grown_step)
  then have "k \<le> step c" using k(1) by simp
  then have "\<not> finished (totalSteps c) k" using assms(4) finished_mono by blast
  then obtain t where t: "js_div (Fin (real (Suc k))) (totalSteps c) = Fin t" "0 \<le> t" "t \<le> 3"
    using quotient_fin [OF assms(2,3)] by blast
  have "m = map (\<lambda>(k, v). (k, json_of_num v)) (sample e c (Suc k))"
    using k e by (simp add: toJson_nth)
  then show "stored_sample m" using sample_stored [OF t] by simp
qed

lemma tick_row_cases:
  assumes "jobs s (jobId c) = Some r"
  shows "jobs (tick env c s) (jobId c) = Some r
       \<or> (totalSteps c \<noteq> NaN
          \<and> jobs (tick env c s) (jobId c)
              = Some (r\<lparr>progress := progress_of (step c + 1) (totalSteps c),
                        metrics_json := toJson (metrics (pushed env c))\<rparr>))
       \<or> (finished (totalSteps c) (step c + 1)
          \<and> jobs (tick env c s) (jobId c)
              = Some (r\<lparr>status := Completed, progress := Fin 100,
                        metrics_json := toJson (metrics (pushed env c))\<rparr>))"
  using assms
  by (auto simp: tick_alt Let_def write_throws_def split: option.splits if_splits)

lemma tick_live_not_finished:
  assumes "intervals (tick env c s) (intervalId c) = Some c'" and "crashed (tick env c s) = None"
  shows "c' = pushed env c \<and> \<not> finished (totalSteps c) (step c + 1)"
  using assms by (auto simp: tick_alt Let_def split: option.splits if_splits)

lemma row_ok_fresh:
  "row_ok \<lparr>project_id = pid, model_id = mid, job_type = ty, status = st,
           progress = Fin 0, metrics_json = [], error = er\<rparr>"
  unfolding row_ok_def by (auto intro: exI [of _ "0::nat"])

lemma row_ok_status [simp]: "row_ok (r\<lparr>status := st\<rparr>) = row_ok r"
  by (simp add: row_ok_def)

lemma vals_init: "vals (init ps)"
  by (simp add: vals_def init_def)

lemma vals_tick:
  assumes "inv s" and "vals s" and "intervals s i = Some c" and "crashed s = None"
  shows "vals (tick env c s)"
proof -
  have ok: "sim_ok s i c" using assms(1,3) by (rule inv_sim)
  then have i: "intervalId c = i" and g: "grown c" by (simp_all add: sim_ok_def)
  have tot: "total_ok (totalSteps c)" and nf: "\<not> finished (totalSteps c) (step c)"
    using assms(2,3,4) by (auto simp: vals_def)
  have new: "row_ok (r\<lparr>progress := progress_of (step c + 1) (totalSteps c),
                        metrics_json := toJson (metrics (pushed env c))\<rparr>)"
       "row_ok (r\<lparr>status := Completed, progress := Fin 100,
                        metrics_json := toJson (metrics (pushed env c))\<rparr>)"
    if nn: "totalSteps c \<noteq> NaN" for r
  proof -
    have s: "\<forall>m\<in>set (toJson (metrics (pushed env c))). stored_sample m"
      using samples_stored [OF g tot nn nf] .
    obtain k :: nat where "k \<le> 100" "progress_of (step c + 1) (totalSteps c) = Fin (real k)"
      using progress_range [OF tot nn] by blast
    then show "row_ok (r\<lparr>progress := progress_of (step c + 1) (totalSteps c),
                        metrics_json := toJson (metrics (pushed env c))\<rparr>)"
      using s by (auto simp: row_ok_def)
    have "(100::nat) \<le> 100 \<and> Fin 100 = Fin (real 100)" by simp
    then show "row_ok (r\<lparr>status := Completed, progress := Fin 100,
                        metrics_json := toJson (metrics (pushed env c))\<rparr>)"
      using s unfolding row_ok_def by (auto intro: exI [of _ "100::nat"])
  qed
  have rows: "row_ok r'" if r': "jobs (tick env c s) j = Some r'" for j r'
  proof (cases "j = jobId c")
    case False
    then have "jobs s j = Some r'" using r' tick_jobs_other [of j c env s] by simp
    then show ?thesis using assms(2) by (auto simp: vals_def)
  next
    case True
    obtain r where r: "jobs s (jobId c) = Some r" using ok by (auto simp: sim_ok_def)
    then have old: "row_ok r" using assms(2) by (auto simp: vals_def)
    show ?thesis
      using tick_row_cases [OF r, of env] r' True old new finished_not_NaN by auto
  qed
  have sims: "total_ok (totalSteps c') \<and> (\<forall>k<step c'. \<not> finished (totalSteps c') k)
              \<and> (crashed (tick env c s) = None \<longrightarrow> \<not> finished (totalSteps c') (step c'))"
    if c': "intervals (tick env c s) i' = Some c'" for i' c'
  proof (cases "i' = intervalId c")
    case False
    then have "intervals s i' = Some c'" using c' tick_intervals_other [of i' c env s] by simp
    then show ?thesis using assms(2,4) by (auto simp: vals_def)
  next
    case True
    have eq: "c' = pushed env c" using tick_intervals_self [of env c s] c' True by auto
    have "\<not> finished (totalSteps c) (step c + 1)" if cr: "crashed (tick env c s) = None"
      using tick_live_not_finished [OF _ cr] c' True by blast
    moreover have "\<not> finished (totalSteps c) k" if "k < step c + 1" for k
      using nf that finished_mono [of "totalSteps c" k "step c"] by auto
    ultimately show ?thesis using tot by (simp add: eq)
  qed
  show ?thesis unfolding vals_def using rows sims by blast
qed

lemma vals_createJob:
  assumes "vals s"
  shows "vals (snd (createJob env pid mid ty cfg s))"
proof (cases "pid \<in> projects s \<and> (\<forall>m. mid = Some m \<longrightarrow> m \<in> models s)")
  case False
  then show ?thesis using assms
    by (cases "pid \<in> projects s") (auto simp: createJob_no_project createJob_no_model)
next
  case True
  then have p: "pid \<in> projects s" and m: "\<forall>m. mid = Some m \<longrightarrow> m \<in> models s" by simp_all
  have old: "row_ok r" if "jobs s j = Some r" for j r using assms that by (auto simp: vals_def)
  have sims: "total_ok (totalSteps c)" "\<forall>k<step c. \<not> finished (totalSteps c) k"
    "crashed s = None \<Longrightarrow> \<not> finished (totalSteps c) (step c)"
    if "intervals s i = Some c" for i c using assms that by (auto simp: vals_def)
  show ?thesis
  proof (cases "setRunning_throws env")
    case None
    show ?thesis unfolding createJob_ok [OF p None m] snd_conv vals_def
      using old sims by (auto simp: row_ok_fresh total_ok_totalSteps not_finished_0)
  next
    case (Some e)
    show ?thesis
    proof (cases "fallback_throws env")
      case None
      show ?thesis unfolding createJob_start_fails [OF p Some None m] snd_conv vals_def
        using old sims by (auto simp: row_ok_fresh)
    next
      case (Some e')
      show ?thesis
        unfolding createJob_fallback_fails [OF p \<open>setRunning_throws env = Some e\<close> Some m]
          snd_conv vals_def
        using old sims by (auto simp: row_ok_fresh)
    qed
  qed
qed

lemma vals_cancelJob:
  assumes "vals s"
  shows "vals (snd (cancelJob jid s))"
proof (cases "jobs s jid")
  case None
  then show ?thesis using assms by (simp add: cancelJob_missing)
next
  case (Some job)
  show ?thesis unfolding cancelJob_row [OF Some] snd_conv
    using assms Some by (auto simp: vals_def split: option.splits if_splits)
qed

lemma vals_exec:
  assumes "inv s" and "vals s"
  shows "vals (exec ev s)"
proof (cases "crashed s = None")
  case False
  then show ?thesis using assms(2) by simp
next
  case True
  show ?thesis
  proof (cases ev)
    case (Create env pid mid ty cfg)
    then show ?thesis using True vals_createJob [OF assms(2)] by simp
  next
    case (Get jid)
    then show ?thesis using assms(2) by simp
  next
    case (List pid)
    then show ?thesis using assms(2) by simp
  next
    case (Cancel jid)
    then show ?thesis using True vals_cancelJob [OF assms(2)] by simp
  next
    case (Tick i env)
    show ?thesis
    proof (cases "intervals s i")
      case None
      then show ?thesis using Tick assms(2) by simp
    next
      case (Some c)
      then show ?thesis using Tick True vals_tick [OF assms Some True] by simp
    qed
  next
    case (NewProject pid)
    then show ?thesis using assms(2) by (simp add: vals_def)
  next
    case (NewModel pid mid)
    then show ?thesis using assms(2) by (simp add: vals_def)
  qed
qed

lemma vals_run: "inv s \<Longrightarrow> vals s \<Longrightarrow> vals (run evs s)"
proof (induction evs arbitrary: s)
  case Nil
  then show ?case by simp
next
  case (Cons ev evs)
  have "inv (exec ev s)" using Cons.prems(1) by (rule inv_exec)
  moreover have "vals (exec ev s)" using Cons.prems by (rule vals_exec)
  ultimately have "vals (run evs (exec ev s))" by (rule Cons.IH)
  then show ?case by (simp del: exec.simps)
qed

lemma vals_reachable: "vals (run evs (init ps))"
  by (rule vals_run [OF inv_init vals_init])

subsection \<open>More example runs\<close>

lemma completed_state:
  "crashed completed = None \<and> jobTimers completed 1 = None \<and> intervals completed 1 = None"
proof -
  have "replicate 100 tick0 \<noteq> []" by simp
  moreover have "real (step sim0 + length (replicate 100 tick0) - 1) < 100" by simp
  moreover have "100 \<le> real (step sim0 + length (replicate 100 tick0))" by simp
  moreover have "\<forall>x\<in>set (replicate 100 tick0). quiet x" by (simp add: quiet_def tick0_def)
  ultimately show ?thesis
    using run_completes [OF live_started, of 100 "replicate 100 tick0"]
    by (simp add: completed_def)
qed

lemma failed_start_eq:
  "failed_start = (init {1})
     \<lparr>jobs := [1 \<mapsto> \<lparr>project_id = 1, model_id = None, job_type = ''train'', status = Failed,
                       progress = Fin 0, metrics_json = [],
                       error = Some ''database is locked''\<rparr>],
      lastJobId := 1\<rparr>"
proof -
  have "1 \<in> projects (init {1})" "setRunning_throws env_locked = Some locked"
    "fallback_throws env_locked = None" "\<forall>m. None = Some m \<longrightarrow> m \<in> models (init {1})"
    by (simp_all add: init_def env_locked_def env0_def)
  from createJob_start_fails [OF this] show ?thesis
    by (simp add: failed_start_def init_def errString_def locked_def)
qed

lemma totalSteps_cfg30: "totalSteps_of cfg30 = Fin 30"
  by (simp add: cfg30_def totalSteps_3_10)

lemma sim30_simps [simp]:
  "intervalId sim30 = 1" "startTime sim30 = 0" "jobId sim30 = 1" "totalSteps sim30 = Fin 30"
  "step sim30 = 0" "metrics sim30 = []"
  by (simp_all add: sim30_def totalSteps_cfg30 env0_def)

lemma progress_1_30: "progress_of (Suc 0) (Fin 30) = Fin 3"
  by (simp add: progress_of_def js_min_def fl_eval)

lemma progress_2_30: "progress_of (Suc (Suc 0)) (Fin 30) = Fin 7"
  by (simp add: progress_of_def js_min_def fl_eval)

lemma started30_eq:
  "started30 = \<lparr>projects = {1}, models = {},
      jobs = [1 \<mapsto> \<lparr>project_id = 1, model_id = None, job_type = ''train'', status = Running,
                        progress = Fin 0, metrics_json = [], error = None\<rparr>],
      lastJobId = 1, intervals = [1 \<mapsto> sim30], lastIntervalId = 1,
      jobTimers = [1 \<mapsto> \<lparr>intervalId = 1, startTime = 0\<rparr>], crashed = None\<rparr>"
proof -
  have "1 \<in> projects (init {1})" "setRunning_throws env0 = None"
    "\<forall>m. None = Some m \<longrightarrow> m \<in> models (init {1})"
    by (simp_all add: init_def env0_def)
  from createJob_ok [OF this] show ?thesis
    by (simp add: started30_def init_def sim30_def env0_def)
qed

lemma live_started30: "live sim30 started30"
  by (simp add: live_def started30_eq)

lemma one_tick30_eq: "one_tick30 = started30\<lparr>intervals := [1 \<mapsto> advance [tick0] sim30]\<rparr>"
proof -
  have f: "flush_throws tick0 = None" by (simp add: tick0_def)
  have n: "\<not> finished (totalSteps sim30) (step sim30 + 1)" by simp
  have t: "totalSteps sim30 \<noteq> NaN" by simp
  have "exec (Tick 1 tick0) started30 = tick tick0 sim30 started30"
    using exec_live_tick [OF live_started30] by (simp del: exec.simps)
  then have e: "one_tick30 = tick tick0 sim30 started30"
    by (simp add: one_tick30_def del: exec.simps)
  show ?thesis
    unfolding e tick_continue [OF n f t]
    by (simp add: progress_1_30 started30_eq fun_eq_iff)
qed

lemma one_tick30_reachable:
  "one_tick30 = run [Create env0 1 None ''train'' cfg30, Tick 1 tick0] (init {1})"
  by (simp add: one_tick30_def started30_def del: exec.simps)

subsection \<open>The loss of the first and of the last sample of a default run\<close>

lemma fl_near:
  assumes "\<bar>x\<bar> < 2"
  shows "\<exists>y. fl x = Fin y \<and> x - 1 / 1000000 \<le> y \<and> y \<le> x + 1 / 1000000
             \<and> (0 \<le> x \<longrightarrow> 0 \<le> y) \<and> (x \<le> 0 \<longrightarrow> y \<le> 0)"
proof -
  obtain y where y: "fl x = Fin y" "\<bar>y - x\<bar> \<le> 1 / 2 ^ 53" "0 \<le> x \<longrightarrow> 0 \<le> y" "x \<le> 0 \<longrightarrow> y \<le> 0"
    using fl_err [OF assms] by blast
  have "x - 1 / 2 ^ 53 \<le> y \<and> y \<le> x + 1 / 2 ^ 53" using y(2) by (rule abs_diffD)
  then have "x - 1 / 1000000 \<le> y \<and> y \<le> x + 1 / 1000000" using eps53 by linarith
  then show ?thesis using y(1,3,4) by blast
qed

lemma twentieth_near: "\<exists>c. fl (1 / 20) = Fin c \<and> 0 \<le> c \<and> c \<le> 51 / 1000"
proof -
  obtain c where c: "fl (1 / 20) = Fin c" "0 \<le> c" "c \<le> 1 / 20 + 1 / 2 ^ 53"
    using twentieth by blast
  have "c \<le> 51 / 1000" using c(3) eps53 by linarith
  then show ?thesis using c(1,2) by blast
qed

lemma noise_term:
  assumes "0 \<le> r" and "r < 1"
  shows "\<exists>b. js_mul (fl (1 / 20)) (Fin r) = Fin b \<and> 0 \<le> b \<and> b \<le> 52 / 1000"
proof -
  obtain c where c: "fl (1 / 20) = Fin c" "0 \<le> c" "c \<le> 51 / 1000"
    using twentieth_near by blast
  have "c * r \<le> 51 / 1000 * 1" using c(2,3) assms by (intro mult_mono) simp_all
  moreover have c0: "0 \<le> c * r" using c(2) assms(1) by simp
  ultimately have "\<bar>c * r\<bar> < 2" by simp
  then obtain b where b: "fl (c * r) = Fin b" "c * r - 1 / 1000000 \<le> b" "b \<le> c * r + 1 / 1000000"
    "0 \<le> c * r \<longrightarrow> 0 \<le> b"
    using fl_near [of "c * r"] by blast
  have "b \<le> 52 / 1000" using b(3) \<open>c * r \<le> 51 / 1000 * 1\<close> by linarith
  moreover have "0 \<le> b" using b(4) c0 by simp
  moreover have "js_mul (fl (1 / 20)) (Fin r) = Fin b" unfolding c(1) using b(1) by simp
  ultimately show ?thesis by blast
qed

lemma js_toFixed4_near:
  assumes "0 \<le> v" and "v < 1 + 9 / 10"
  shows "\<exists>x. js_toFixed4 (Fin v) = Fin x \<and> v - 1 / 10000 \<le> x \<and> x \<le> v + 1 / 10000"
proof -
  have lo: "v - 1 / 20000 \<le> toFixed4 v" and hi: "toFixed4 v \<le> v + 1 / 20000"
    using toFixed4_bounds [OF assms(1)] by simp_all
  have "0 \<le> toFixed4 v" using assms(1) by (simp add: toFixed4_def)
  then have "\<bar>toFixed4 v\<bar> < 2" using hi assms(2) by simp
  then obtain x where x: "fl (toFixed4 v) = Fin x" "toFixed4 v - 1 / 1000000 \<le> x"
    "x \<le> toFixed4 v + 1 / 1000000"
    using fl_near [of "toFixed4 v"] by blast
  have "\<not> 10 ^ 21 \<le> \<bar>v\<bar>" using assms by simp
  then have "js_toFixed4 (Fin v) = Fin x" using x(1) by simp
  moreover have "v - 1 / 10000 \<le> x" using lo x(2) by linarith
  moreover have "x \<le> v + 1 / 10000" using hi x(3) by linarith
  ultimately show ?thesis by blast
qed

lemma decay_term:
  assumes "m \<le> 0"
  shows "\<exists>a. js_mul (Fin (3 / 2)) (js_exp (Fin m)) = Fin a \<and> 0 \<le> a
             \<and> 3 / 2 * exp m - 1 / 100000 \<le> a \<and> a \<le> 3 / 2 * exp m + 1 / 100000"
proof -
  have e0: "0 < exp m" by simp
  have e1: "exp m \<le> 1" using assms by simp
  have "\<bar>exp m\<bar> < 2" using e0 e1 by linarith
  then obtain e where e: "fl (exp m) = Fin e" "exp m - 1 / 1000000 \<le> e" "e \<le> exp m + 1 / 1000000"
    "0 \<le> exp m \<longrightarrow> 0 \<le> e"
    using fl_near [of "exp m"] by blast
  have ee: "0 \<le> e" using e(4) by simp
  have "\<bar>3 / 2 * e\<bar> < 2" using ee e(3) e1 by linarith
  then obtain a where a: "fl (3 / 2 * e) = Fin a" "3 / 2 * e - 1 / 1000000 \<le> a"
    "a \<le> 3 / 2 * e + 1 / 1000000" "0 \<le> 3 / 2 * e \<longrightarrow> 0 \<le> a"
    using fl_near [of "3 / 2 * e"] by blast
  have "js_mul (Fin (3 / 2)) (js_exp (Fin m)) = Fin a" using e(1) a(1) by simp
  moreover have "0 \<le> a" using a(4) ee by simp
  moreover have "3 / 2 * exp m - 1 / 100000 \<le> a" using a(2) e(2) by linarith
  moreover have "a \<le> 3 / 2 * exp m + 1 / 100000" using a(3) e(3) by linarith
  ultimately show ?thesis by blast
qed

lemma loss_value:
  assumes "js_mul (Fin (- 3)) t = Fin m" and "m \<le> 0" and "0 \<le> r" and "r < 1"
  shows "\<exists>x. loss_of t r = Fin x \<and> 3 / 2 * exp m - 1 / 1000 \<le> x
             \<and> x \<le> 3 / 2 * exp m + 53 / 1000"
proof -
  obtain a where a: "js_mul (Fin (3 / 2)) (js_exp (Fin m)) = Fin a" "0 \<le> a"
    "3 / 2 * exp m - 1 / 100000 \<le> a" "a \<le> 3 / 2 * exp m + 1 / 100000"
    using decay_term [OF assms(2)] by blast
  obtain b where b: "js_mul (fl (1 / 20)) (Fin r) = Fin b" "0 \<le> b" "b \<le> 52 / 1000"
    using noise_term [OF assms(3,4)] by blast
  have e1: "exp m \<le> 1" using assms(2) by simp
  have s0: "0 \<le> a + b" using a(2) b(2) by simp
  have s1: "a + b < 1 + 3 / 5" using a(4) b(3) e1 by linarith
  then have "\<bar>a + b\<bar> < 2" using s0 by linarith
  then obtain v where v: "fl (a + b) = Fin v" "a + b - 1 / 1000000 \<le> v" "v \<le> a + b + 1 / 1000000"
    "0 \<le> a + b \<longrightarrow> 0 \<le> v"
    using fl_near [of "a + b"] by blast
  have v0: "0 \<le> v" using v(4) s0 by simp
  have v1: "v < 1 + 9 / 10" using v(3) s1 by linarith
  obtain x where x: "js_toFixed4 (Fin v) = Fin x" "v - 1 / 10000 \<le> x" "x \<le> v + 1 / 10000"
    using js_toFixed4_near [OF v0 v1] by blast
  have "js_add (Fin a) (Fin b) = Fin v" using v(1) by simp
  then have "loss_of t r = Fin x" unfolding loss_of_def assms(1) a(1) b(1) using x(1) by simp
  moreover have "3 / 2 * exp m - 1 / 1000 \<le> x" using x(2) v(2) a(3) b(2) by linarith
  moreover have "x \<le> 3 / 2 * exp m + 53 / 1000" using x(3) v(3) a(4) b(3) by linarith
  ultimately show ?thesis by blast
qed

lemma loss_first_lower:
  assumes "0 \<le> r" and "r < 1"
  shows "\<exists>a. loss_of (js_div (Fin 1) (Fin 100)) r = Fin a \<and> 7 / 5 < a"
proof -
  let ?q = "5764607523034235 / 576460752303423488 :: real"
  have "\<bar>- 3 * ?q\<bar> < 2" by simp
  then obtain m where m: "fl (- 3 * ?q) = Fin m" "- 3 * ?q - 1 / 1000000 \<le> m"
    "- 3 * ?q \<le> 0 \<longrightarrow> m \<le> 0"
    using fl_near [of "- 3 * ?q"] by blast
  have m0: "m \<le> 0" using m(3) by simp
  have m1: "- 4 / 100 \<le> m" using m(2) by simp
  have t: "js_mul (Fin (- 3)) (js_div (Fin 1) (Fin 100)) = Fin m"
    unfolding quot_1_100 using m(1) by simp
  obtain x where x: "loss_of (js_div (Fin 1) (Fin 100)) r = Fin x" "3 / 2 * exp m - 1 / 1000 \<le> x"
    using loss_value [OF t m0 assms] by blast
  have "1 + m \<le> exp m" by (rule exp_ge_add_one_self)
  then have "24 / 25 \<le> exp m" using m1 by linarith
  then have "7 / 5 < x" using x(2) by linarith
  then show ?thesis using x(1) by blast
qed

lemma loss_last_upper:
  assumes "0 \<le> r" and "r < 1"
  shows "\<exists>b. loss_of (js_div (Fin 100) (Fin 100)) r = Fin b \<and> b < 1 / 2"
proof -
  have t: "js_mul (Fin (- 3)) (js_div (Fin 100) (Fin 100)) = Fin (- 3)"
    unfolding quot_100_100 by (simp add: fl_eval)
  obtain x where x: "loss_of (js_div (Fin 100) (Fin 100)) r = Fin x"
    "x \<le> 3 / 2 * exp (- 3) + 53 / 1000"
    using loss_value [OF t _ assms] by auto
  have "1 + 3 \<le> exp (3::real)" by (rule exp_ge_add_one_self)
  then have "exp (- 3 :: real) \<le> 1 / 4"
    by (simp add: exp_minus field_simps)
  then have "x < 1 / 2" using x(2) by linarith
  then show ?thesis using x(1) by blast
qed

section \<open>The claims\<close>

text \<open>
  C1 at a failing input: the default job after its 100 ticks, stored as \<open>completed\<close>
  with progress 100 and 100 samples and without a timer. The cancel route does not look
  at the stored status: it answers 200 with the row rewritten to \<open>canceled\<close>, and the
  store holds \<open>canceled\<close> afterwards. The same happens to a job that is stored as
  \<open>failed\<close> because its start threw.
\<close>

theorem cancel_rewrites_terminal_job:
  "completed = run (Create env0 1 None ''train'' cfg0 # map (Tick 1) (replicate 100 tick0)) (init {1})
   \<and> crashed completed = None \<and> jobTimers completed 1 = None
   \<and> (\<exists>r. jobs completed 1 = Some r \<and> status r = Completed \<and> progress r = Fin 100
          \<and> length (metrics_json r) = 100
          \<and> fst (cancelJob 1 completed) = Status200 (r\<lparr>status := Canceled\<rparr>) (metrics_json r)
          \<and> jobs (exec (Cancel 1) completed) 1 = Some (r\<lparr>status := Canceled\<rparr>))
   \<and> crashed failed_start = None
   \<and> jobs failed_start 1
       = Some \<lparr>project_id = 1, model_id = None, job_type = ''train'', status = Failed,
                progress = Fin 0, metrics_json = [], error = Some ''database is locked''\<rparr>
   \<and> fst (cancelJob 1 failed_start)
       = Status200 \<lparr>project_id = 1, model_id = None, job_type = ''train'', status = Canceled,
                    progress = Fin 0, metrics_json = [], error = Some ''database is locked''\<rparr> []
   \<and> jobs (exec (Cancel 1) failed_start) 1
       = Some \<lparr>project_id = 1, model_id = None, job_type = ''train'', status = Canceled,
                progress = Fin 0, metrics_json = [], error = Some ''database is locked''\<rparr>"
proof -
  obtain r0 where r: "jobs completed 1 = Some (r0\<lparr>status := Completed, progress := Fin 100,
         metrics_json := toJson (metrics (advance (replicate 100 tick0) sim0))\<rparr>)"
    using completed_row by blast
  let ?r = "r0\<lparr>status := Completed, progress := Fin 100,
         metrics_json := toJson (metrics (advance (replicate 100 tick0) sim0))\<rparr>"
  have cr: "crashed completed = None" and nt: "jobTimers completed 1 = None"
    using completed_state by simp_all
  have len: "length (metrics_json ?r) = 100" by (simp add: sim0_def)
  have c1: "fst (cancelJob 1 completed) = Status200 (?r\<lparr>status := Canceled\<rparr>) (metrics_json ?r)"
    and c2: "jobs (snd (cancelJob 1 completed)) 1 = Some (?r\<lparr>status := Canceled\<rparr>)"
    using cancelJob_row [OF r] by simp_all
  have c3: "jobs (exec (Cancel 1) completed) 1 = Some (?r\<lparr>status := Canceled\<rparr>)"
    using c2 cr by simp
  have a: "\<exists>r. jobs completed 1 = Some r \<and> status r = Completed \<and> progress r = Fin 100
          \<and> length (metrics_json r) = 100
          \<and> fst (cancelJob 1 completed) = Status200 (r\<lparr>status := Canceled\<rparr>) (metrics_json r)
          \<and> jobs (exec (Cancel 1) completed) 1 = Some (r\<lparr>status := Canceled\<rparr>)"
    using r len c1 c3 by (intro exI [of _ ?r]) simp
  let ?f = "\<lparr>project_id = 1, model_id = None, job_type = ''train'', status = Failed,
                progress = Fin 0, metrics_json = [], error = Some ''database is locked''\<rparr>"
  have f: "jobs failed_start 1 = Some ?f" and fc: "crashed failed_start = None"
    by (simp_all add: failed_start_eq init_def)
  have f1: "fst (cancelJob 1 failed_start) = Status200 (?f\<lparr>status := Canceled\<rparr>) (metrics_json ?f)"
    and f2: "jobs (snd (cancelJob 1 failed_start)) 1 = Some (?f\<lparr>status := Canceled\<rparr>)"
    using cancelJob_row [OF f] by simp_all
  have f3: "jobs (exec (Cancel 1) failed_start) 1 = Some (?f\<lparr>status := Canceled\<rparr>)"
    using f2 fc by simp
  show ?thesis using completed_reachable cr nt a fc f f1 f3 by simp
qed

text \<open>
  C2 at a failing input: the default job, first tick fine, the flush of the second tick
  throws. The exception leaves the callback uncaught: the process is terminated, the
  store still says \<open>running\<close> with no error message, and neither the timer nor the
  entry of \<open>jobTimers\<close> has been removed; nothing runs afterwards.
\<close>

theorem tick_write_failure_uncaught:
  "(let boom = Error ''SqliteError'' ''disk I/O error'';
        s = exec (Tick 1 (tick0\<lparr>flush_throws := Some boom\<rparr>)) one_tick
    in crashed s = Some boom
       \<and> map_option status (jobs s 1) = Some Running
       \<and> map_option error (jobs s 1) = Some None
       \<and> jobTimers s 1 = Some \<lparr>intervalId = 1, startTime = 0\<rparr>
       \<and> (\<exists>c. intervals s 1 = Some c \<and> step c = 2)
       \<and> (\<forall>ev. exec ev s = s))"
proof -
  let ?boom = "Error ''SqliteError'' ''disk I/O error''"
  let ?env = "tick0\<lparr>flush_throws := Some ?boom\<rparr>"
  let ?c = "advance [tick0] sim0"
  have fl: "(step ?c + 1) mod 2 = 0 \<or> progress_of (step ?c + 1) (totalSteps ?c) = Fin 100"
    by simp
  have th: "flush_throws ?env = Some ?boom" by simp
  have "exec (Tick 1 ?env) one_tick = tick ?env ?c one_tick"
    using exec_live_tick [OF live_one_tick] by (simp del: exec.simps)
  then have "exec (Tick 1 ?env) one_tick
             = one_tick\<lparr>intervals := (intervals one_tick)(intervalId ?c \<mapsto> pushed ?env ?c),
                        crashed := Some ?boom\<rparr>"
    using tick_flush_crash [OF fl th] by simp
  then show ?thesis by (simp add: Let_def one_tick_eq started_eq)
qed

text \<open>
  C3 at a failing input: \<open>epochs\<close> is not a number (\<open>"abc"\<close>). It is not replaced by
  the default: the total is \<open>NaN\<close>, the test \<open>step >= totalSteps\<close> never holds, and
  after any number of ticks, whatever the environment does, the job is still stored as
  \<open>running\<close>. With no fault of the environment the second tick, the first that
  flushes, writes the progress \<open>NaN\<close>: the statement throws on the column's
  constraint, uncaught, and the process is terminated with the job stored as running.
\<close>

theorem non_numeric_epochs_never_completes:
  "totalSteps_of cfg_nan = NaN
   \<and> (\<forall>es. map_option status
              (jobs (run (Create env0 1 None ''train'' cfg_nan # map (Tick 1) es) (init {1})) 1)
            = Some Running)
   \<and> crashed (run [Create env0 1 None ''train'' cfg_nan, Tick 1 tick0] (init {1})) = None
   \<and> crashed (run [Create env0 1 None ''train'' cfg_nan, Tick 1 tick0, Tick 1 tick0] (init {1}))
       = Some not_null_error"
proof -
  have t: "totalSteps_of cfg_nan = NaN"
    by (simp add: cfg_nan_def totalSteps_of_def js_max_def)
  have p: "1 \<in> projects (init {1})" "setRunning_throws env0 = None"
    "\<forall>m. None = Some m \<longrightarrow> m \<in> models (init {1})"
    by (simp_all add: init_def env0_def)
  let ?s = "exec (Create env0 1 None ''train'' cfg_nan) (init {1})"
  let ?c = "fresh_sim env0 1 1 cfg_nan"
  have s: "?s = snd (createJob env0 1 None ''train'' cfg_nan (init {1}))"
    by (simp add: init_def)
  have a: "map_option status (jobs ?s 1) = Some Running"
    unfolding s createJob_ok [OF p] by (simp add: init_def)
  have b: "\<forall>c. intervals ?s 1 = Some c \<longrightarrow> jobId c = 1 \<and> intervalId c = 1 \<and> totalSteps c = NaN"
    unfolding s createJob_ok [OF p] by (simp add: init_def t)
  have stuck: "map_option status (jobs (run (map (Tick 1) es) ?s) 1) = Some Running" for es
    by (rule nan_run_stuck [OF a b])
  have c: "intervals ?s 1 = Some ?c" and cr: "crashed ?s = None"
    unfolding s createJob_ok [OF p] by (simp_all add: init_def)
  have row: "\<exists>r. jobs ?s 1 = Some r" using a by (cases "jobs ?s 1") simp_all
  have tc: "totalSteps ?c = NaN" "(step ?c + 1) mod 2 \<noteq> 0" by (simp_all add: t)
  let ?s1 = "?s\<lparr>intervals := (intervals ?s)(intervalId ?c \<mapsto> pushed tick0 ?c)\<rparr>"
  have "exec (Tick 1 tick0) ?s = tick tick0 ?c ?s" using c cr by simp
  then have one: "exec (Tick 1 tick0) ?s = ?s1" unfolding tick_nan_odd [OF tc] .
  have c1: "intervals ?s1 1 = Some (pushed tick0 ?c)" and cr1: "crashed ?s1 = None"
    using cr by simp_all
  obtain r where r: "jobs ?s1 (jobId (pushed tick0 ?c)) = Some r" using row by auto
  have tc1: "totalSteps (pushed tick0 ?c) = NaN" "(step (pushed tick0 ?c) + 1) mod 2 = 0"
    by (simp_all add: t)
  have f: "flush_throws tick0 = None" by (simp add: tick0_def)
  have "exec (Tick 1 tick0) ?s1 = tick tick0 (pushed tick0 ?c) ?s1" using c1 cr1 by simp
  then have two: "crashed (exec (Tick 1 tick0) ?s1) = Some not_null_error"
    unfolding tick_nan_even [OF tc1 r f] by simp
  have r1: "run [Create env0 1 None ''train'' cfg_nan, Tick 1 tick0] (init {1}) = ?s1"
    using one by (simp del: exec.simps)
  have r2: "run [Create env0 1 None ''train'' cfg_nan, Tick 1 tick0, Tick 1 tick0] (init {1})
            = exec (Tick 1 tick0) ?s1"
    using one by (simp del: exec.simps)
  have "crashed (run [Create env0 1 None ''train'' cfg_nan, Tick 1 tick0] (init {1})) = None"
    unfolding r1 using cr1 .
  moreover have "crashed (run [Create env0 1 None ''train'' cfg_nan, Tick 1 tick0, Tick 1 tick0]
                   (init {1})) = Some not_null_error"
    unfolding r2 using two .
  ultimately show ?thesis using t stuck by (simp del: exec.simps)
qed

text \<open>
  C4, as the code has it. For a live timer of a reachable state, a tick leaves the
  stored progress of the job as it is or stores \<open>progress_of\<close> of the incremented step
  and the total; it stores that value whenever the tick flushes (an even step, or a
  progress of 100) and no write throws, also at the last tick, where that value is
  100. For a total that is a number the scaled quotient \<open>step / totalSteps * 100\<close>
  is a finite double \<open>x\<close> and the progress is \<open>x\<close> rounded to the nearest integer, a
  half upwards (\<open>\<lfloor>x + 1/2\<rfloor>\<close>), capped at 100; it equals the rounded-down value of
  the specification exactly when the fractional part of \<open>x\<close> is below one half or
  \<open>x\<close> is 100 or more. For a total that is not a number the progress is \<open>NaN\<close>, and no
  tick changes the stored row. Every stored progress is an integer from 0 to 100.
\<close>

theorem progress_rounds_to_nearest:
  assumes "s = run evs (init ps)" and "intervals s i = Some c" and "crashed s = None"
  shows "(\<exists>r. jobs s (jobId c) = Some r
           \<and> (\<forall>env. \<exists>r'. jobs (exec (Tick i env) s) (jobId c) = Some r'
                 \<and> (progress r' = progress r
                    \<or> progress r' = progress_of (step c + 1) (totalSteps c))
                 \<and> (totalSteps c \<noteq> NaN \<longrightarrow> flush_throws env = None \<longrightarrow>
                    final_throws env = None \<longrightarrow>
                    ((step c + 1) mod 2 = 0 \<or> progress_of (step c + 1) (totalSteps c) = Fin 100) \<longrightarrow>
                    progress r' = progress_of (step c + 1) (totalSteps c))
                 \<and> (totalSteps c = NaN \<longrightarrow> r' = r)))
       \<and> (totalSteps c \<noteq> NaN \<longrightarrow>
            (\<exists>x. 0 \<le> x
               \<and> js_mul (js_div (Fin (real (step c + 1))) (totalSteps c)) (Fin 100) = Fin x
               \<and> progress_of (step c + 1) (totalSteps c) = Fin (of_int (min \<lfloor>x + 1 / 2\<rfloor> 100))
               \<and> (progress_of (step c + 1) (totalSteps c) = spec_progress (step c + 1) (totalSteps c)
                    \<longleftrightarrow> x - of_int \<lfloor>x\<rfloor> < 1 / 2 \<or> 100 \<le> x)))
       \<and> (totalSteps c = NaN \<longrightarrow> progress_of (step c + 1) (totalSteps c) = NaN)
       \<and> (\<forall>j r. jobs s j = Some r \<longrightarrow> (\<exists>k::nat. k \<le> 100 \<and> progress r = Fin (real k)))"
proof -
  have inv: "inv s" unfolding assms(1) by (rule inv_reachable)
  have vals: "vals s" unfolding assms(1) by (rule vals_reachable)
  have ok: "sim_ok s i c" using inv assms(2) by (rule inv_sim)
  then have i: "intervalId c = i" by (simp add: sim_ok_def)
  obtain r where r: "jobs s (jobId c) = Some r" using ok by (auto simp: sim_ok_def)
  have tot: "total_ok (totalSteps c)" and nf: "\<not> finished (totalSteps c) (step c)"
    using vals assms(2,3) by (auto simp: vals_def)
  have ex: "exec (Tick i env) s = tick env c s" for env using assms(2,3) by simp
  let ?p = "progress_of (step c + 1) (totalSteps c)"
  have last: "?p = Fin 100" if "finished (totalSteps c) (step c + 1)"
    using progress_when_finished [OF tot nf that] .
  have one: "\<exists>r'. jobs (exec (Tick i env) s) (jobId c) = Some r'
                 \<and> (progress r' = progress r \<or> progress r' = ?p)
                 \<and> (totalSteps c \<noteq> NaN \<longrightarrow> flush_throws env = None \<longrightarrow>
                    final_throws env = None \<longrightarrow>
                    ((step c + 1) mod 2 = 0 \<or> ?p = Fin 100) \<longrightarrow> progress r' = ?p)
                 \<and> (totalSteps c = NaN \<longrightarrow> r' = r)" for env
  proof -
    have wr: "progress r' = ?p"
      if r': "jobs (tick env c s) (jobId c) = Some r'" and nn: "totalSteps c \<noteq> NaN"
        and f1: "flush_throws env = None" and f2: "final_throws env = None"
        and fl: "(step c + 1) mod 2 = 0 \<or> ?p = Fin 100" for r'
    proof (cases "finished (totalSteps c) (step c + 1)")
      case True
      have "quiet env" using f1 f2 by (simp add: quiet_def)
      then show ?thesis using r' r last [OF True] by (auto simp: tick_final [OF True])
    next
      case False
      show ?thesis using r' r fl by (auto simp: tick_continue [OF False f1 nn])
    qed
    from tick_row_cases [OF r, of env] show ?thesis
    proof (elim disjE conjE)
      assume a: "jobs (tick env c s) (jobId c) = Some r"
      have "totalSteps c \<noteq> NaN \<longrightarrow> flush_throws env = None \<longrightarrow> final_throws env = None \<longrightarrow>
            ((step c + 1) mod 2 = 0 \<or> ?p = Fin 100) \<longrightarrow> progress r = ?p"
        using wr [OF a] by blast
      then show ?thesis unfolding ex using a by (intro exI [of _ r]) simp
    next
      let ?r = "r\<lparr>progress := ?p, metrics_json := toJson (metrics (pushed env c))\<rparr>"
      assume a: "totalSteps c \<noteq> NaN" "jobs (tick env c s) (jobId c) = Some ?r"
      show ?thesis unfolding ex using a by (intro exI [of _ ?r]) simp
    next
      let ?r = "r\<lparr>status := Completed, progress := Fin 100,
                  metrics_json := toJson (metrics (pushed env c))\<rparr>"
      assume a: "finished (totalSteps c) (step c + 1)" "jobs (tick env c s) (jobId c) = Some ?r"
      have "totalSteps c \<noteq> NaN" using a(1) by auto
      then show ?thesis unfolding ex using a last [OF a(1)] by (intro exI [of _ ?r]) simp
    qed
  qed
  have num: "\<exists>x. 0 \<le> x
               \<and> js_mul (js_div (Fin (real (step c + 1))) (totalSteps c)) (Fin 100) = Fin x
               \<and> ?p = Fin (of_int (min \<lfloor>x + 1 / 2\<rfloor> 100))
               \<and> (?p = spec_progress (step c + 1) (totalSteps c)
                    \<longleftrightarrow> x - of_int \<lfloor>x\<rfloor> < 1 / 2 \<or> 100 \<le> x)"
    if nn: "totalSteps c \<noteq> NaN"
  proof -
    obtain x where x: "0 \<le> x"
      "js_mul (js_div (Fin (real (Suc (step c)))) (totalSteps c)) (Fin 100) = Fin x"
      using scaled_fin [OF tot nn nf] by blast
    then have x': "js_mul (js_div (Fin (real (step c + 1))) (totalSteps c)) (Fin 100) = Fin x"
      by simp
    have p: "?p = Fin (of_int (min \<lfloor>x + 1 / 2\<rfloor> 100))"
      and q: "spec_progress (step c + 1) (totalSteps c) = Fin (of_int (min \<lfloor>x\<rfloor> 100))"
      using progress_exact [OF x'] by simp_all
    have "(?p = spec_progress (step c + 1) (totalSteps c))
          = (x - of_int \<lfloor>x\<rfloor> < 1 / 2 \<or> 100 \<le> x)"
      unfolding p q using round_vs_floor [of x] by simp
    then show ?thesis using x(1) x' p by blast
  qed
  have nan: "?p = NaN" if "totalSteps c = NaN" using that by simp
  have rows: "\<exists>k::nat. k \<le> 100 \<and> progress r = Fin (real k)" if "jobs s j = Some r" for j r
    using vals that by (auto simp: vals_def row_ok_def)
  show ?thesis using r one num nan rows by blast
qed

text \<open>
  C4 on a job with a total of 30 steps (\<open>epochs = 3\<close>, \<open>stepsPerEpoch = 10\<close>) after its
  first tick: the second tick flushes, the product is 6.67 and the stored progress is 7.
\<close>

theorem progress_rounds_to_nearest_witness:
  "intervals one_tick30 1 = Some (advance [tick0] sim30) \<and> crashed one_tick30 = None
   \<and> (\<exists>r'. jobs (exec (Tick 1 tick0) one_tick30) 1 = Some r' \<and> progress r' = Fin 7)"
proof -
  let ?c = "advance [tick0] sim30"
  have h2: "intervals one_tick30 1 = Some ?c" by (simp add: one_tick30_eq)
  have h3: "crashed one_tick30 = None" by (simp add: one_tick30_eq started30_eq)
  have t: "totalSteps ?c \<noteq> NaN" and f: "flush_throws tick0 = None" "final_throws tick0 = None"
    and e: "(step ?c + 1) mod 2 = 0 \<or> progress_of (step ?c + 1) (totalSteps ?c) = Fin 100"
    by (simp_all add: tick0_def)
  have p: "progress_of (step ?c + 1) (totalSteps ?c) = Fin 7"
    by (simp add: progress_2_30)
  have j: "jobId ?c = 1" by simp
  note th = progress_rounds_to_nearest [OF one_tick30_reachable h2 h3]
  obtain r where
    "\<forall>env. \<exists>r'. jobs (exec (Tick 1 env) one_tick30) (jobId ?c) = Some r'
                 \<and> (progress r' = progress r
                    \<or> progress r' = progress_of (step ?c + 1) (totalSteps ?c))
                 \<and> (totalSteps ?c \<noteq> NaN \<longrightarrow> flush_throws env = None \<longrightarrow>
                    final_throws env = None \<longrightarrow>
                    ((step ?c + 1) mod 2 = 0 \<or> progress_of (step ?c + 1) (totalSteps ?c) = Fin 100) \<longrightarrow>
                    progress r' = progress_of (step ?c + 1) (totalSteps ?c))
                 \<and> (totalSteps ?c = NaN \<longrightarrow> r' = r)"
    using th [THEN conjunct1] by (elim exE conjE)
  then obtain r' where r': "jobs (exec (Tick 1 tick0) one_tick30) (jobId ?c) = Some r'"
    "totalSteps ?c \<noteq> NaN \<longrightarrow> flush_throws tick0 = None \<longrightarrow>
                    final_throws tick0 = None \<longrightarrow>
                    ((step ?c + 1) mod 2 = 0 \<or> progress_of (step ?c + 1) (totalSteps ?c) = Fin 100) \<longrightarrow>
                    progress r' = progress_of (step ?c + 1) (totalSteps ?c)"
    by (elim allE [of _ tick0] exE conjE)
  have "progress r' = progress_of (step ?c + 1) (totalSteps ?c)"
    using r'(2) t f e by (elim impE)
  with r'(1) have "jobs (exec (Tick 1 tick0) one_tick30) 1 = Some r' \<and> progress r' = Fin 7"
    unfolding p j by simp
  then show ?thesis using h2 h3 by blast
qed

text \<open>
  C4 as stated fails: at that tick the code stores 7 where rounding down gives 6.
\<close>

theorem progress_not_rounded_down:
  "progress_of 2 (totalSteps_of \<lparr>epochs = Some (Fin 3), stepsPerEpoch = Some (Fin 10)\<rparr>) = Fin 7
   \<and> spec_progress 2 (totalSteps_of \<lparr>epochs = Some (Fin 3), stepsPerEpoch = Some (Fin 10)\<rparr>) = Fin 6"
  by (simp add: totalSteps_3_10 progress_of_def spec_progress_def js_min_def fl_eval)

text \<open>
  C5. A job started with the default config (absent fields, or \<open>epochs = 5\<close> and
  \<open>stepsPerEpoch = 20\<close>: a total of 100 steps; the model it names, if any, exists)
  and ticked 100 times without a failing write: at the 100th tick the timer is stopped, the entry of \<open>jobTimers\<close> removed and
  the store holds status \<open>completed\<close>, progress 100 and 100 samples, the last one's loss
  below the first one's whatever the random draws were; before the 100th tick the job is
  running and its timer live.
\<close>

theorem default_run_completes:
  assumes proj: "pid \<in> projects s0" and alive: "crashed s0 = None"
    and start: "setRunning_throws env = None"
    and model: "\<forall>m. mid = Some m \<longrightarrow> m \<in> models s0"
    and e: "e = None \<or> e = Some (Fin 5)" and p: "p = None \<or> p = Some (Fin 20)"
    and len: "length es = 100"
    and envs: "\<forall>x\<in>set es. quiet x"
  shows "(let iid = lastIntervalId s0 + 1; jid = lastJobId s0 + 1;
              s = run (Create env pid mid ty \<lparr>epochs = e, stepsPerEpoch = p\<rparr> # map (Tick iid) es) s0
          in intervals s iid = None \<and> jobTimers s jid = None
             \<and> (\<exists>r a b. jobs s jid = Some r \<and> status r = Completed \<and> progress r = Fin 100
                   \<and> length (metrics_json r) = 100
                   \<and> map_of (hd (metrics_json r)) ''loss'' = Some (JNum a)
                   \<and> map_of (last (metrics_json r)) ''loss'' = Some (JNum b) \<and> b < a))
       \<and> (\<forall>k<100.
             (let iid = lastIntervalId s0 + 1; jid = lastJobId s0 + 1;
                  s = run (Create env pid mid ty \<lparr>epochs = e, stepsPerEpoch = p\<rparr>
                             # map (Tick iid) (take k es)) s0
              in intervals s iid \<noteq> None \<and> jobTimers s jid \<noteq> None
                 \<and> map_option status (jobs s jid) = Some Running))"
proof -
  define cfg where "cfg = \<lparr>epochs = e, stepsPerEpoch = p\<rparr>"
  define iid where "iid = lastIntervalId s0 + 1"
  define jid where "jid = lastJobId s0 + 1"
  define c0 where "c0 = fresh_sim env iid jid cfg"
  define s1 where "s1 = exec (Create env pid mid ty cfg) s0"
  have total: "totalSteps c0 = Fin 100"
    using totalSteps_defaults [OF e p] by (simp add: c0_def cfg_def)
  have ids: "intervalId c0 = iid" "jobId c0 = jid" "step c0 = 0"
    by (simp_all add: c0_def)
  have live0: "live c0 s1"
    unfolding c0_def s1_def iid_def jid_def by (rule createJob_live [OF proj start model alive])
  have running: "live (advance (take k es) c0) (run (map (Tick iid) (take k es)) s1)"
    if "k < 100" for k
  proof -
    have "\<forall>x\<in>set (take k es). flush_throws x = None"
      using envs by (auto simp: quiet_def dest: in_set_takeD)
    moreover have "\<forall>j. step c0 < j \<and> j \<le> step c0 + length (take k es)
                     \<longrightarrow> \<not> finished (totalSteps c0) j"
      using that by (auto simp: total ids)
    moreover have "totalSteps c0 \<noteq> NaN" by (simp add: total)
    ultimately show ?thesis using live_ticks [OF live0] by (simp add: ids)
  qed
  have before: "intervals s iid \<noteq> None \<and> jobTimers s jid \<noteq> None
                \<and> map_option status (jobs s jid) = Some Running"
    if "k < 100" and "s = run (map (Tick iid) (take k es)) s1" for k s
    using running [OF that(1)] that(2) by (simp add: live_def ids)
  let ?c = "advance (take 99 es) c0" and ?s = "run (map (Tick iid) (take 99 es)) s1"
  let ?e = "es ! 99"
  have "take (Suc 99) es = take 99 es @ [?e]"
    by (rule take_Suc_conv_app_nth) (simp add: len)
  moreover have "take (Suc 99) es = es" using len by simp
  ultimately have split: "es = take 99 es @ [?e]" by simp
  have l99: "live ?c ?s" using running [of 99] by simp
  have q: "quiet ?e" using envs len by simp
  have fin: "finished (totalSteps ?c) (step ?c + 1)" using len by (simp add: total ids)
  define s where "s = run (map (Tick iid) es) s1"
  have "s = exec (Tick iid ?e) ?s"
    unfolding s_def by (subst split) simp
  then have s_eq: "s = tick ?e ?c ?s" using exec_live_tick [OF l99] by (simp add: ids)
  have all: "pushed ?e ?c = advance es c0"
    using advance_snoc [of "take 99 es" ?e c0] split by simp
  obtain r0 where r0: "jobs ?s jid = Some r0" using l99 by (auto simp: live_def ids)
  let ?r = "r0\<lparr>status := Completed, progress := Fin 100, metrics_json := toJson (metrics (advance es c0))\<rparr>"
  have a1: "intervals s iid = None" and a2: "jobTimers s jid = None" and a3: "jobs s jid = Some ?r"
    unfolding s_eq tick_final [OF fin q] using r0 by (simp_all add: ids all)
  have ms: "length (metrics_json ?r) = 100" using len by (simp add: c0_def)
  have ne: "es \<noteq> []" using len by auto
  have first: "hd (metrics_json ?r) = map (\<lambda>(k, v). (k, json_of_num v)) (sample (hd es) c0 1)"
    using hd_toJson_fresh [OF ne] by (simp add: c0_def)
  have last: "last (metrics_json ?r) = map (\<lambda>(k, v). (k, json_of_num v)) (sample (last es) c0 100)"
    using last_toJson_fresh [OF ne] len by (simp add: c0_def)
  obtain a where a: "loss_of (js_div (Fin 1) (Fin 100)) (draw_value (rand1 (hd es))) = Fin a"
    "7 / 5 < a"
    using loss_first_lower [OF draw_bounds] by blast
  obtain b where b: "loss_of (js_div (Fin 100) (Fin 100)) (draw_value (rand1 (last es))) = Fin b"
    "b < 1 / 2"
    using loss_last_upper [OF draw_bounds] by blast
  have la: "map_of (hd (metrics_json ?r)) ''loss'' = Some (JNum a)"
    unfolding first loss_of_sample total using a(1) by simp
  have lb: "map_of (last (metrics_json ?r)) ''loss'' = Some (JNum b)"
    unfolding last loss_of_sample total using b(1) by simp
  have "b < a" using a(2) b(2) by simp
  then have final: "\<exists>r a b. jobs s jid = Some r \<and> status r = Completed \<and> progress r = Fin 100
                   \<and> length (metrics_json r) = 100
                   \<and> map_of (hd (metrics_json r)) ''loss'' = Some (JNum a)
                   \<and> map_of (last (metrics_json r)) ''loss'' = Some (JNum b) \<and> b < a"
    using a3 ms la lb by (intro exI [of _ ?r] exI [of _ a] exI [of _ b]) simp
  have run1: "run (Create env pid mid ty cfg # map (Tick iid) xs) s0 = run (map (Tick iid) xs) s1" for xs
    by (simp add: s1_def)
  show ?thesis
    unfolding Let_def cfg_def [symmetric] iid_def [symmetric] jid_def [symmetric] run1
    using a1 a2 final before by (simp add: s_def)
qed

text \<open>C5 on a fresh process with project 1, every draw 0.\<close>

theorem default_run_completes_witness:
  "(let s = run (Create env0 1 None ''train'' \<lparr>epochs = None, stepsPerEpoch = None\<rparr>
                  # map (Tick (lastIntervalId (init {1}) + 1)) (replicate 100 tick0)) (init {1})
    in intervals s (lastIntervalId (init {1}) + 1) = None
       \<and> jobTimers s (lastJobId (init {1}) + 1) = None
       \<and> (\<exists>r. jobs s (lastJobId (init {1}) + 1) = Some r \<and> status r = Completed
              \<and> progress r = Fin 100 \<and> length (metrics_json r) = 100))"
proof -
  have h1: "1 \<in> projects (init {1})" by (simp add: init_def)
  have h2: "crashed (init {1}) = None" by (simp add: init_def)
  have h3: "setRunning_throws env0 = None" by (simp add: env0_def)
  have hm: "\<forall>m. None = Some m \<longrightarrow> m \<in> models (init {1})" by simp
  have h4: "None = None \<or> None = Some (Fin 5)" by simp
  have h5: "None = None \<or> None = Some (Fin 20)" by simp
  have h6: "length (replicate 100 tick0) = 100" by simp
  have h7: "\<forall>x\<in>set (replicate 100 tick0). quiet x"
    by (simp add: tick0_def quiet_def)
  show ?thesis
    using default_run_completes [OF h1 h2 h3 hm h4 h5 h6 h7, of "''train''"]
    unfolding Let_def by blast
qed

text \<open>
  C6. Canceling a job of a reachable state that has an entry in \<open>jobTimers\<close>: the
  entry's interval is cleared, the entry removed, the row stored and returned with status
  \<open>canceled\<close> and nothing else changed. The cleared interval was the job's timer, whose
  buffer extends the stored one: what it held beyond the last flush is gone with it, and
  whatever happens later the row stays as the cancellation left it. Canceling right after
  a successful start (on an existing project, naming no model or an existing one) returns
  \<open>canceled\<close>, progress 0 and no metrics.
\<close>

theorem cancel_live_job:
  assumes "s = run evs (init ps)" and "jobs s jid = Some job" and "jobTimers s jid = Some timer"
  shows "cancelJob jid s =
           (Status200 (job\<lparr>status := Canceled\<rparr>) (metrics_json job),
            s\<lparr>intervals := (intervals s)(intervalId timer := None),
              jobTimers := (jobTimers s)(jid := None),
              jobs := (jobs s)(jid \<mapsto> job\<lparr>status := Canceled\<rparr>)\<rparr>)
       \<and> (\<exists>c. intervals s (intervalId timer) = Some c \<and> jobId c = jid
              \<and> prefix (metrics_json job) (toJson (metrics c)))
       \<and> (\<forall>evs'. jobs (run evs' (snd (cancelJob jid s))) jid = Some (job\<lparr>status := Canceled\<rparr>))
       \<and> (\<forall>env pid mid ty cfg s0. pid \<in> projects s0 \<longrightarrow> setRunning_throws env = None \<longrightarrow>
             (\<forall>m. mid = Some m \<longrightarrow> m \<in> models s0) \<longrightarrow>
             fst (cancelJob (lastJobId s0 + 1) (snd (createJob env pid mid ty cfg s0)))
             = Status200 \<lparr>project_id = pid, model_id = mid, job_type = ty, status = Canceled,
                          progress = Fin 0, metrics_json = [], error = None\<rparr> [])"
proof -
  have inv: "inv s" unfolding assms(1) by (rule inv_reachable)
  have eq: "cancelJob jid s =
           (Status200 (job\<lparr>status := Canceled\<rparr>) (metrics_json job),
            s\<lparr>intervals := (intervals s)(intervalId timer := None),
              jobTimers := (jobTimers s)(jid := None),
              jobs := (jobs s)(jid \<mapsto> job\<lparr>status := Canceled\<rparr>)\<rparr>)"
    using cancelJob_row [OF assms(2)] assms(3) by simp
  obtain c where c: "intervals s (intervalId timer) = Some c" "jobId c = jid"
    using inv_reg [OF inv assms(3)] by blast
  have "prefix (metrics_json job) (toJson (metrics c))"
    using inv_sim [OF inv c(1)] c(2) assms(2) by (auto simp: sim_ok_def)
  then have own: "\<exists>c. intervals s (intervalId timer) = Some c \<and> jobId c = jid
              \<and> prefix (metrics_json job) (toJson (metrics c))"
    using c by blast
  have inv': "inv (snd (cancelJob jid s))" using inv by (rule inv_cancelJob)
  have "jobTimers (snd (cancelJob jid s)) jid = None"
    and "jobs (snd (cancelJob jid s)) jid = Some (job\<lparr>status := Canceled\<rparr>)"
    by (simp_all add: eq)
  then have later: "jobs (run evs' (snd (cancelJob jid s))) jid = Some (job\<lparr>status := Canceled\<rparr>)"
    for evs'
    using canceled_forever [OF inv'] by simp
  have early: "fst (cancelJob (lastJobId s0 + 1) (snd (createJob env pid mid ty cfg s0)))
             = Status200 \<lparr>project_id = pid, model_id = mid, job_type = ty, status = Canceled,
                          progress = Fin 0, metrics_json = [], error = None\<rparr> []"
    if "pid \<in> projects s0" "setRunning_throws env = None"
      "\<forall>m. mid = Some m \<longrightarrow> m \<in> models s0" for env pid mid ty cfg s0
  proof -
    have "jobs (snd (createJob env pid mid ty cfg s0)) (lastJobId s0 + 1)
          = Some \<lparr>project_id = pid, model_id = mid, job_type = ty, status = Running,
                   progress = Fin 0, metrics_json = [], error = None\<rparr>"
      by (simp add: createJob_ok [OF that])
    from cancelJob_row [OF this] show ?thesis by simp
  qed
  show ?thesis using eq own later early by blast
qed

text \<open>
  C6 on the default job after one tick: the timer holds one sample that was not
  flushed; the cancellation returns progress 0 and no metrics.
\<close>

theorem cancel_live_job_witness:
  "(\<exists>c. intervals one_tick 1 = Some c \<and> length (metrics c) = 1)
   \<and> fst (cancelJob 1 one_tick)
     = Status200 \<lparr>project_id = 1, model_id = None, job_type = ''train'', status = Canceled,
                  progress = Fin 0, metrics_json = [], error = None\<rparr> []
   \<and> intervals (snd (cancelJob 1 one_tick)) 1 = None
   \<and> jobTimers (snd (cancelJob 1 one_tick)) 1 = None"
proof -
  let ?r = "\<lparr>project_id = 1, model_id = None, job_type = ''train'', status = Running,
             progress = Fin 0, metrics_json = [], error = None\<rparr>"
  have r: "jobs one_tick 1 = Some ?r" by (simp add: one_tick_eq started_eq)
  have t: "jobTimers one_tick 1 = Some \<lparr>intervalId = 1, startTime = 0\<rparr>"
    by (simp add: one_tick_eq started_eq)
  have c: "\<exists>c. intervals one_tick 1 = Some c \<and> length (metrics c) = 1"
    by (simp add: one_tick_eq)
  have "cancelJob 1 one_tick =
           (Status200 (?r\<lparr>status := Canceled\<rparr>) (metrics_json ?r),
            one_tick\<lparr>intervals := (intervals one_tick)(intervalId \<lparr>intervalId = 1, startTime = 0\<rparr> := None),
              jobTimers := (jobTimers one_tick)(1 := None),
              jobs := (jobs one_tick)(1 \<mapsto> ?r\<lparr>status := Canceled\<rparr>)\<rparr>)"
    using cancel_live_job [OF one_tick_reachable r t] by blast
  then show ?thesis using c by simp
qed

text \<open>
  C7. In every reachable state the sample at index \<open>k\<close> of a timer's buffer, and of a
  stored buffer, has step \<open>k + 1\<close>. An event leaves a timer's buffer as it is or
  appends one sample with the next step (or ends the timer), and the buffer stored for a
  job after an event extends the one stored before.
\<close>

theorem metrics_contiguous_append_only:
  assumes "s = run evs (init ps)"
  shows "(\<forall>i c k. intervals s i = Some c \<longrightarrow> k < length (metrics c) \<longrightarrow>
            map_of (metrics c ! k) ''step'' = Some (Fin (real (k + 1))))
       \<and> (\<forall>j r k. jobs s j = Some r \<longrightarrow> k < length (metrics_json r) \<longrightarrow>
            map_of (metrics_json r ! k) ''step'' = Some (JNum (real (k + 1))))
       \<and> (\<forall>ev i c. intervals s i = Some c \<longrightarrow>
            intervals (exec ev s) i = None
            \<or> (\<exists>c'. intervals (exec ev s) i = Some c'
                  \<and> (metrics c' = metrics c
                     \<or> (\<exists>x. metrics c' = metrics c @ [x]
                          \<and> map_of x ''step'' = Some (Fin (real (length (metrics c) + 1)))))))
       \<and> (\<forall>ev j r. jobs s j = Some r \<longrightarrow>
            (\<exists>r'. jobs (exec ev s) j = Some r' \<and> prefix (metrics_json r) (metrics_json r')))"
proof -
  have inv: "inv s" unfolding assms by (rule inv_reachable)
  have mem: "map_of (metrics c ! k) ''step'' = Some (Fin (real (k + 1)))"
    if c: "intervals s i = Some c" and k: "k < length (metrics c)" for i c k
  proof -
    have "grown c" using inv_sim [OF inv c] by (simp add: sim_ok_def)
    then obtain e where "metrics c ! k = sample e c (Suc k)" using grown_nth k by blast
    then show ?thesis by (simp add: sample_step)
  qed
  have sto: "map_of (metrics_json r ! k) ''step'' = Some (JNum (real (k + 1)))"
    if r: "jobs s j = Some r" and k: "k < length (metrics_json r)" for j r k
  proof -
    have "stored_ok (metrics_json r)" using inv_row [OF inv r] by simp
    then obtain e c where
      "metrics_json r ! k = map (\<lambda>(k, v). (k, json_of_num v)) (sample e c (Suc k))"
      using stored_ok_nth k by blast
    then show ?thesis by (simp add: sample_json_step)
  qed
  have app: "intervals (exec ev s) i = None
            \<or> (\<exists>c'. intervals (exec ev s) i = Some c'
                  \<and> (metrics c' = metrics c
                     \<or> (\<exists>x. metrics c' = metrics c @ [x]
                          \<and> map_of x ''step'' = Some (Fin (real (length (metrics c) + 1))))))"
    if "intervals s i = Some c" for ev i c
  proof -
    have "grown c" using inv_sim [OF inv that] by (simp add: sim_ok_def)
    then have st: "step c = length (metrics c)" by (rule grown_step)
    have "metrics (pushed env c) = metrics c @ [sample env c (length (metrics c) + 1)]
          \<and> map_of (sample env c (length (metrics c) + 1)) ''step''
              = Some (Fin (real (length (metrics c) + 1)))" for env
      using st by (simp add: sample_step)
    then show ?thesis using buffer_grows [OF inv that, of ev] by metis
  qed
  show ?thesis using mem sto app stored_grows [OF inv] by blast
qed

text \<open>C7 on the default job after two ticks: two samples are stored, the second has step 2.\<close>

theorem metrics_contiguous_append_only_witness:
  "\<exists>r. jobs two_ticks 1 = Some r \<and> length (metrics_json r) = 2
       \<and> map_of (metrics_json r ! 1) ''step'' = Some (JNum 2)"
proof -
  let ?r = "\<lparr>project_id = 1, model_id = None, job_type = ''train'', status = Running,
             progress = Fin 2,
             metrics_json = toJson [sample tick0 sim0 1, sample tick0 sim0 2],
             error = None\<rparr>"
  have r: "jobs two_ticks 1 = Some ?r" by (simp add: two_ticks_eq)
  have len: "(1::nat) < length (metrics_json ?r)" by simp
  have "map_of (metrics_json ?r ! 1) ''step'' = Some (JNum (real (1 + 1)))"
    using metrics_contiguous_append_only [OF two_ticks_reachable] r len by blast
  then show ?thesis using r by (intro exI [of _ ?r]) simp
qed




text \<open>
  C9, as the code has it. A creation request on an existing project that names no
  model, or an existing one, is answered 201 with the row as it is stored after the
  simulator's synchronous part. If the simulator's write of \<open>running\<close> succeeded, the
  status in the response is \<open>running\<close> and the store holds the same row. If that write
  threw, the response carries \<open>queued\<close>: the row is read back before the rejection
  handler runs, which then stores \<open>failed\<close> with the error's message.
\<close>

theorem createJob_response_status:
  assumes "pid \<in> projects s" and "\<forall>m. mid = Some m \<longrightarrow> m \<in> models s"
  shows "\<exists>job. fst (createJob env pid mid ty cfg s) = Status201 (Some job) []
               \<and> job = \<lparr>project_id = pid, model_id = mid, job_type = ty,
                         status = (if setRunning_throws env = None then Running else Queued),
                         progress = Fin 0, metrics_json = [], error = None\<rparr>
               \<and> (setRunning_throws env = None \<longrightarrow>
                    jobs (snd (createJob env pid mid ty cfg s)) (lastJobId s + 1) = Some job)
               \<and> (\<forall>e. setRunning_throws env = Some e \<longrightarrow> fallback_throws env = None \<longrightarrow>
                    jobs (snd (createJob env pid mid ty cfg s)) (lastJobId s + 1)
                    = Some (job\<lparr>status := Failed, error := Some (errString e)\<rparr>))"
proof (cases "setRunning_throws env")
  case None
  show ?thesis using createJob_ok [OF assms(1) None assms(2)] None by simp
next
  case (Some e)
  show ?thesis
  proof (cases "fallback_throws env")
    case None
    show ?thesis
      using createJob_start_fails [OF assms(1) Some None assms(2)] Some by simp
  next
    case (Some e')
    show ?thesis
      using createJob_fallback_fails [OF assms(1) \<open>setRunning_throws env = Some e\<close> Some assms(2)]
        \<open>setRunning_throws env = Some e\<close> Some by simp
  qed
qed

text \<open>C9 on a fresh process with project 1 and no fault: the response says \<open>running\<close>.\<close>

theorem createJob_response_status_witness:
  "1 \<in> projects (init {1})
   \<and> fst (createJob env0 1 None ''train'' cfg0 (init {1}))
      = Status201 (Some \<lparr>project_id = 1, model_id = None, job_type = ''train'', status = Running,
                          progress = Fin 0, metrics_json = [], error = None\<rparr>) []"
proof -
  have h1: "1 \<in> projects (init {1})" by (simp add: init_def)
  have h2: "\<forall>m. None = Some m \<longrightarrow> m \<in> models (init {1})" by simp
  have h3: "setRunning_throws env0 = None" by (simp add: env0_def)
  show ?thesis
    using createJob_response_status [OF h1 h2, of env0 "''train''" cfg0] h1 h3 by auto
qed

text \<open>
  C9 as stated fails: on the same process, when the simulator's write of \<open>running\<close>
  throws, the request is still answered 201 and the job in the response is \<open>queued\<close>;
  the store then holds it as \<open>failed\<close>.
\<close>

theorem createJob_response_queued:
  "fst (createJob env_locked 1 None ''train'' cfg0 (init {1}))
     = Status201 (Some \<lparr>project_id = 1, model_id = None, job_type = ''train'', status = Queued,
                         progress = Fin 0, metrics_json = [], error = None\<rparr>) []
   \<and> map_option status (jobs (snd (createJob env_locked 1 None ''train'' cfg0 (init {1}))) 1)
       = Some Failed"
proof -
  have "1 \<in> projects (init {1})" "setRunning_throws env_locked = Some locked"
    "fallback_throws env_locked = None" "\<forall>m. None = Some m \<longrightarrow> m \<in> models (init {1})"
    by (simp_all add: init_def env_locked_def env0_def)
  from createJob_start_fails [OF this] show ?thesis by (simp add: init_def)
qed

text \<open>
  C10. Progress 100 in the store does not mean the job is terminal. For a job that
  was started (on an existing project, naming no model or an existing one) with a total
  of \<open>t \<ge> 200\<close> steps, after the last tick before completion (tick \<open>\<lceil>t\<rceil> - 1\<close>) the
  store holds progress 100 (the rounded progress is 100 there, so the tick flushes
  whatever its parity) while the status is still \<open>running\<close> and the timer is live.
\<close>

theorem progress_100_while_running:
  assumes proj: "pid \<in> projects s0" and alive: "crashed s0 = None"
    and start: "setRunning_throws env = None"
    and model: "\<forall>m. mid = Some m \<longrightarrow> m \<in> models s0"
    and total: "totalSteps_of cfg = Fin t" and big: "200 \<le> t"
    and len: "length es = nat \<lceil>t\<rceil> - 1"
    and envs: "\<forall>x\<in>set es. flush_throws x = None"
  shows "(let iid = lastIntervalId s0 + 1; jid = lastJobId s0 + 1;
              s = run (Create env pid mid ty cfg # map (Tick iid) es) s0
          in crashed s = None \<and> intervals s iid \<noteq> None \<and> jobTimers s jid \<noteq> None
             \<and> (\<exists>r. jobs s jid = Some r \<and> status r = Running \<and> progress r = Fin 100))"
proof -
  define iid where "iid = lastIntervalId s0 + 1"
  define jid where "jid = lastJobId s0 + 1"
  define c0 where "c0 = fresh_sim env iid jid cfg"
  define s1 where "s1 = exec (Create env pid mid ty cfg) s0"
  define n where "n = nat \<lceil>t\<rceil>"
  have n: "200 \<le> n" "real n - 1 < t" "t \<le> real n"
    unfolding n_def using big by linarith+
  have ids: "intervalId c0 = iid" "jobId c0 = jid" "step c0 = 0" "totalSteps c0 = Fin t"
    by (simp_all add: c0_def total)
  have live0: "live c0 s1"
    unfolding c0_def s1_def iid_def jid_def by (rule createJob_live [OF proj start model alive])
  have len0: "length es = n - 1" using len by (simp add: n_def)
  have ne: "es \<noteq> []" using len0 n(1) by auto
  define es' where "es' = butlast es"
  define e where "e = last es"
  have split: "es = es' @ [e]" using ne by (simp add: es'_def e_def)
  have len': "length es' = n - 2" using len0 by (simp add: es'_def)
  define c where "c = advance es' c0"
  define s' where "s' = run (map (Tick iid) es') s1"
  have "\<forall>x\<in>set es'. flush_throws x = None" using envs split by auto
  moreover have "\<forall>j. step c0 < j \<and> j \<le> step c0 + length es' \<longrightarrow> \<not> finished (totalSteps c0) j"
  proof (intro allI impI)
    fix j assume "step c0 < j \<and> j \<le> step c0 + length es'"
    then have "j \<le> n - 2" by (simp add: ids len')
    then have "j + 2 \<le> n" using n(1) by linarith
    then have "real (j + 2) \<le> real n" by (rule of_nat_mono)
    then have "real j \<le> real n - 2" by simp
    then show "\<not> finished (totalSteps c0) j" using n(2) by (simp add: ids)
  qed
  moreover have "totalSteps c0 \<noteq> NaN" by (simp add: ids)
  ultimately have l: "live c s'"
    unfolding c_def s'_def using live_ticks [OF live0] by (simp add: ids)
  have cids: "intervalId c = iid" "jobId c = jid" "totalSteps c = Fin t" "step c + 1 = n - 1"
    using n(1) by (simp_all add: c_def ids len')
  have k: "real (n - 1) = real n - 1" using n(1) by (simp add: of_nat_diff)
  have "\<not> t \<le> real (n - 1)" using n(2) k by linarith
  then have "\<not> finished (Fin t) (n - 1)" unfolding finished_Fin .
  then have nf: "\<not> finished (totalSteps c) (step c + 1)" unfolding cids .
  have fe: "flush_throws e = None" using envs split by auto
  have "199 / 200 * t \<le> real (n - 1)" using n(3) big k by linarith
  moreover have "real (n - 1) < t" using n(2) k by linarith
  moreover have "0 < t" using big by simp
  ultimately have "progress_of (n - 1) (Fin t) = Fin 100" by (intro progress_near_end)
  then have p: "progress_of (step c + 1) (totalSteps c) = Fin 100" unfolding cids .
  define s where "s = run (map (Tick iid) es) s1"
  have "s = exec (Tick iid e) s'" by (simp add: s_def split s'_def)
  then have s_eq: "s = tick e c s'" using exec_live_tick [OF l] by (simp add: cids)
  have nn: "totalSteps c \<noteq> NaN" by (simp add: cids)
  have l2: "live (pushed e c) s"
    using live_tick_continue [OF l nf fe nn] exec_live_tick [OF l] s_eq by simp
  obtain r0 where r0: "jobs s' jid = Some r0" "status r0 = Running"
    using l by (auto simp: live_def cids)
  have "jobs s jid = Some (r0\<lparr>progress := Fin 100, metrics_json := toJson (metrics (pushed e c))\<rparr>)"
    unfolding s_eq tick_continue [OF nf fe nn] using r0 p by (simp add: cids)
  then have row: "\<exists>r. jobs s jid = Some r \<and> status r = Running \<and> progress r = Fin 100"
    using r0 by simp
  have "crashed s = None \<and> intervals s iid \<noteq> None \<and> jobTimers s jid \<noteq> None"
    using l2 by (simp add: live_def cids)
  moreover have "run (Create env pid mid ty cfg # map (Tick iid) es) s0 = s"
    by (simp add: s_def s1_def)
  ultimately show ?thesis
    unfolding Let_def iid_def [symmetric] jid_def [symmetric] using row by simp
qed

text \<open>C10 for \<open>epochs = 10\<close>, \<open>stepsPerEpoch = 20\<close>: the state after 199 ticks.\<close>

theorem progress_100_while_running_witness:
  "(let s = run (Create env0 1 None ''train'' \<lparr>epochs = Some (Fin 10), stepsPerEpoch = Some (Fin 20)\<rparr>
                  # map (Tick (lastIntervalId (init {1}) + 1)) (replicate 199 tick0)) (init {1})
    in crashed s = None \<and> intervals s (lastIntervalId (init {1}) + 1) \<noteq> None
       \<and> (\<exists>r. jobs s (lastJobId (init {1}) + 1) = Some r \<and> status r = Running \<and> progress r = Fin 100))"
proof -
  have h1: "1 \<in> projects (init {1})" by (simp add: init_def)
  have h2: "crashed (init {1}) = None" by (simp add: init_def)
  have h3: "setRunning_throws env0 = None" by (simp add: env0_def)
  have hm: "\<forall>m. None = Some m \<longrightarrow> m \<in> models (init {1})" by simp
  have h4: "(200::real) \<le> 200" by simp
  have h5: "length (replicate 199 tick0) = nat \<lceil>200::real\<rceil> - 1" by simp
  have h6: "\<forall>x\<in>set (replicate 199 tick0). flush_throws x = None" by (simp add: tick0_def)
  show ?thesis
    using progress_100_while_running [OF h1 h2 h3 hm totalSteps_10_20 h4 h5 h6, of "''train''"]
    unfolding Let_def by blast
qed

end
